theory Spec2Isabelle
  imports Complex_Main "HOL-Library.Sublist"
begin

section \<open>Values of the JavaScript runtime\<close>

text \<open>
  The relay of \<^verbatim>\<open>server.js\<close> handles parsed JSON documents and strings.  A JavaScript
  value is modelled by \<open>jsval\<close>; \<open>JUndefined\<close> is what reading an absent property gives.
  A number that \<^verbatim>\<open>JSON.parse\<close> can produce is a finite double or an infinity.
\<close>

datatype jsnumber = Finite rat | PlusInfinity | MinusInfinity

datatype jsval =
    JUndefined
  | JNull
  | JBool bool
  | JNum jsnumber
  | JStr string
  | JArr "jsval list"
  | JObj "(string \<times> jsval) list"

text \<open>JavaScript's conversion to boolean, as used by \<^verbatim>\<open>!x\<close> and \<^verbatim>\<open>x || y\<close>.\<close>

fun truthy :: "jsval \<Rightarrow> bool" where
  "truthy JUndefined = False"
| "truthy JNull = False"
| "truthy (JBool b) = b"
| "truthy (JNum n) = (n \<noteq> Finite 0)"
| "truthy (JStr s) = (s \<noteq> [])"
| "truthy (JArr vs) = True"
| "truthy (JObj kvs) = True"

definition js_or :: "jsval \<Rightarrow> jsval \<Rightarrow> jsval" where
  "js_or a b = (if truthy a then a else b)"

definition str_or :: "string \<Rightarrow> string \<Rightarrow> string" where
  "str_or a b = (if a \<noteq> [] then a else b)"

text \<open>
  Reading a property in a destructuring pattern \<^verbatim>\<open>const { k } = v\<close>.  The handlers only
  destructure \<^verbatim>\<open>body || {}\<close>, which is never \<^verbatim>\<open>null\<close> or \<^verbatim>\<open>undefined\<close>; on a string, a
  number, a boolean or an array none of the names the handlers read is a property.
\<close>

fun property :: "jsval \<Rightarrow> string \<Rightarrow> jsval" where
  "property (JObj kvs) k = (case map_of kvs k of None \<Rightarrow> JUndefined | Some v \<Rightarrow> v)"
| "property v k = JUndefined"

text \<open>The default of a destructuring pattern \<^verbatim>\<open>{ k = d }\<close>: it replaces \<^verbatim>\<open>undefined\<close> only.\<close>

definition orDefault :: "jsval \<Rightarrow> jsval \<Rightarrow> jsval" where
  "orDefault v d = (if v = JUndefined then d else v)"

fun isArray :: "jsval \<Rightarrow> bool" where
  "isArray (JArr vs) = True"
| "isArray v = False"

text \<open>Assigning a property of an object literal: an existing key keeps its place.\<close>

fun assign :: "string \<Rightarrow> 'v \<Rightarrow> (string \<times> 'v) list \<Rightarrow> (string \<times> 'v) list" where
  "assign k v [] = [(k, v)]"
| "assign k v (p # ps) = (if fst p = k then (k, v) # ps else p # assign k v ps)"

text \<open>
  A \<open>string\<close> is a sequence of bytes.  The bytes of a request or response body are
  taken as they are on the wire; a JavaScript string stands as its UTF-8 encoding, so
  that its length is \<^verbatim>\<open>Buffer.byteLength\<close> and \<^verbatim>\<open>res.end\<close> sends it as it is.

  The functions of the runtime the relay calls but does not define.
  \<open>JSON_parse\<close> gives \<open>None\<close> where \<^verbatim>\<open>JSON.parse\<close> throws a SyntaxError, and
  \<open>encodeURIComponent\<close> gives \<open>None\<close> where it throws a URIError (a lone surrogate).
  \<open>Buffer_toString\<close> is \<^verbatim>\<open>Buffer.concat(chunks).toString()\<close> and \<open>Response_text\<close> is
  \<^verbatim>\<open>resp.text()\<close> of a body that arrived whole: the text decoded from the bytes.  Both
  give valid UTF-8 back as it is and replace what is not; \<^verbatim>\<open>resp.text()\<close> also drops a
  byte order mark.
\<close>

record runtime =
  JSON_parse :: "string \<Rightarrow> jsval option"
  JSON_stringify :: "jsval \<Rightarrow> string"
  encodeURIComponent :: "jsval \<Rightarrow> string option"
  Buffer_toString :: "string \<Rightarrow> string"
  Response_text :: "string \<Rightarrow> string"

datatype js_error = StreamError | URIError

section \<open>Requests, responses and the upstream network\<close>

text \<open>
  An incoming request: its method, its URL and its body, which is either the chunks read
  from the stream or an error raised while reading it.
\<close>

record request =
  http_method :: string
  url :: string
  stream :: "js_error + string list"

text \<open>
  The response the client receives: the status code and the headers given to
  \<^verbatim>\<open>res.setHeader\<close> and \<^verbatim>\<open>res.writeHead\<close>, and the body that is sent.
\<close>

record server_response =
  code :: nat
  head :: "(string \<times> string) list"
  content :: string

text \<open>The \<^verbatim>\<open>{ status, body }\<close> objects the two proxies return.\<close>

record response =
  status :: nat
  body :: string

record upstream_request =
  req_method :: string
  req_url :: string
  req_headers :: "(string \<times> jsval) list"
  req_body :: string

text \<open>
  What becomes of one outbound call.  \<open>Responds st bytes\<close>: a response with status
  \<open>st\<close> arrived whole, with these body bytes.  \<open>Fails message\<close>: the request failed
  with an error (no connection, a refused header, a timeout of \<^verbatim>\<open>fetch\<close>).
  \<open>Aborted st message\<close>: the head of a response with status \<open>st\<close> arrived and the
  connection was lost before the end of the body; \<open>message\<close> is the message of the
  error the response stream then has.  The network answers the \<open>n\<close>-th outbound call
  of the process, so that the same host may answer differently each time.
\<close>

datatype outcome = Responds nat string | Fails string | Aborted nat string

type_synonym network = "nat \<Rightarrow> upstream_request \<Rightarrow> outcome"

text \<open>
  The state of the process: the module-level variable \<open>pinnedBaseUrl\<close>, and the log of
  the outbound calls issued so far (kept to count them).  A request is handled as one
  step from state to state: requests that interleave at their \<^verbatim>\<open>await\<close>s are not
  modelled.
\<close>

record relay_state =
  pinnedBaseUrl :: "string option"
  outbound :: "upstream_request list"

definition BASE_URLS :: "string list" where
  "BASE_URLS =
    [''https://api.sleekflow.io'',
     ''https://sleekflow-core-app-eus-production.azurewebsites.net'',
     ''https://sleekflow-core-app-seas-production.azurewebsites.net'',
     ''https://sleekflow-core-app-weu-production.azurewebsites.net'',
     ''https://sleekflow-core-app-uaen-production.azurewebsites.net'']"

definition initial_state :: relay_state where
  "initial_state = \<lparr>pinnedBaseUrl = None, outbound = []\<rparr>"

section \<open>Host ordering\<close>

text \<open>
  \<^verbatim>\<open>if (!pinnedBaseUrl) return BASE_URLS;\<close>
  \<^verbatim>\<open>return [pinnedBaseUrl, ...BASE_URLS.filter(base => base !== pinnedBaseUrl)];\<close>
  The test \<^verbatim>\<open>!pinnedBaseUrl\<close> holds for \<^verbatim>\<open>null\<close> and for the empty string.
\<close>

definition getBasesToTry :: "string option \<Rightarrow> string list" where
  "getBasesToTry pinned =
     (case pinned of
        None \<Rightarrow> BASE_URLS
      | Some p \<Rightarrow>
          if p = [] then BASE_URLS
          else p # filter (\<lambda>base. base \<noteq> p) BASE_URLS)"

section \<open>The two proxies\<close>

text \<open>\<^verbatim>\<open>base.replace(/\/+$/, "")\<close>: the trailing slashes are removed.\<close>

definition stripTrailingSlashes :: "string \<Rightarrow> string" where
  "stripTrailingSlashes base = rev (dropWhile (\<lambda>c. c = CHR ''/'') (rev base))"

text \<open>
  \<open>proxyGetWithBody\<close> sends a GET request with a JSON body.  Its promise resolves to
  \<^verbatim>\<open>{ status: upstreamRes.statusCode || 500, body }\<close> on the \<^verbatim>\<open>end\<close> event of the response,
  and rejects on the \<^verbatim>\<open>error\<close> event of the request.  The response itself has no
  \<^verbatim>\<open>error\<close> listener: when the connection is lost after the head of the response,
  \<^verbatim>\<open>end\<close> never comes and the promise never settles, which is the result \<open>None\<close>.

  \<open>req_url\<close> is the string given to \<^verbatim>\<open>new URL\<close>; the host, port and path of the request
  are what the runtime's parser makes of it (it resolves dot segments).
\<close>

definition getRequest :: "runtime \<Rightarrow> string \<Rightarrow> (string \<times> jsval) list \<Rightarrow> jsval \<Rightarrow> upstream_request" where
  "getRequest rt urlString headers bodyObj =
     (let payload = JSON_stringify rt (js_or bodyObj (JObj []))
      in \<lparr>req_method = ''GET'',
          req_url = urlString,
          req_headers =
            assign ''Content-Length'' (JNum (Finite (of_nat (length payload))))
              (assign ''Content-Type'' (JStr ''application/json'') headers),
          req_body = payload\<rparr>)"

definition proxyGetWithBody ::
  "runtime \<Rightarrow> network \<Rightarrow> string \<Rightarrow> (string \<times> jsval) list \<Rightarrow> jsval \<Rightarrow> relay_state
     \<Rightarrow> (string + response) option \<times> relay_state" where
  "proxyGetWithBody rt net urlString headers bodyObj s =
     (let req = getRequest rt urlString headers bodyObj
      in (case net (length (outbound s)) req of
            Responds statusCode chunks \<Rightarrow>
              Some (Inr \<lparr>status = (if statusCode \<noteq> 0 then statusCode else 500),
                         body = Buffer_toString rt chunks\<rparr>)
          | Fails message \<Rightarrow> Some (Inl message)
          | Aborted statusCode message \<Rightarrow> None,
          s\<lparr>outbound := outbound s @ [req]\<rparr>))"

definition recordsUrl :: "string \<Rightarrow> string \<Rightarrow> string" where
  "recordsUrl base enc =
     stripTrailingSlashes base @ ''/api/customObjects/'' @ enc @ ''/records?limit=1000''"

definition recordsHeaders :: "jsval \<Rightarrow> (string \<times> jsval) list" where
  "recordsHeaders apiKey =
     [(''Accept'', JStr ''application/json''),
      (''X-Sleekflow-Api-Key'', apiKey),
      (''Content-Type'', JStr ''application/json'')]"

definition rejected :: "string \<Rightarrow> nat \<Rightarrow> string \<Rightarrow> jsval" where
  "rejected base st b =
     JObj [(''base'', JStr base), (''status'', JNum (Finite (of_nat st))), (''body'', JStr b)]"

definition errored :: "string \<Rightarrow> string \<Rightarrow> jsval" where
  "errored base message = JObj [(''base'', JStr base), (''error'', JStr message)]"

definition allFailed :: "jsval list \<Rightarrow> jsval" where
  "allFailed errors = JObj [(''error'', JStr ''All base URLs failed''), (''attempts'', JArr errors)]"

text \<open>
  The loop of \<open>fetchViaAvailableBase\<close> over \<open>basesToTry\<close>, with the array \<open>errors\<close>.
  The URL is built before the \<^verbatim>\<open>try\<close>, so an error of \<open>encodeURIComponent\<close> leaves the
  function; an error of the request is caught and recorded.  The result \<open>None\<close> is a
  call that never returns: it waits for a promise that never settles.
\<close>

fun fetchLoop ::
  "runtime \<Rightarrow> network \<Rightarrow> jsval \<Rightarrow> jsval \<Rightarrow> jsval \<Rightarrow> string list \<Rightarrow> jsval list \<Rightarrow> relay_state
     \<Rightarrow> (js_error + response) option \<times> relay_state" where
  "fetchLoop rt net apiKey objectKey continuationToken [] errors s =
     (Some (Inr \<lparr>status = 502, body = JSON_stringify rt (allFailed errors)\<rparr>), s)"
| "fetchLoop rt net apiKey objectKey continuationToken (base # rest) errors s =
     (case encodeURIComponent rt objectKey of
        None \<Rightarrow> (Some (Inl URIError), s)
      | Some enc \<Rightarrow>
          (case proxyGetWithBody rt net (recordsUrl base enc) (recordsHeaders apiKey)
                  (JObj [(''continuationToken'', continuationToken)]) s of
             (Some (Inr resp), s') \<Rightarrow>
               if status resp = 200 then (Some (Inr resp), s'\<lparr>pinnedBaseUrl := Some base\<rparr>)
               else fetchLoop rt net apiKey objectKey continuationToken rest
                      (errors @ [rejected base (status resp) (body resp)]) s'
           | (Some (Inl message), s') \<Rightarrow>
               fetchLoop rt net apiKey objectKey continuationToken rest
                 (errors @ [errored base message]) s'
           | (None, s') \<Rightarrow> (None, s')))"

definition fetchViaAvailableBase ::
  "runtime \<Rightarrow> network \<Rightarrow> jsval \<Rightarrow> jsval \<Rightarrow> jsval \<Rightarrow> relay_state
     \<Rightarrow> (js_error + response) option \<times> relay_state" where
  "fetchViaAvailableBase rt net apiKey objectKey continuationToken s =
     fetchLoop rt net apiKey objectKey continuationToken
       (getBasesToTry (pinnedBaseUrl s)) [] s"

text \<open>\<^verbatim>\<open>resp.ok\<close> of a fetch response: the status is in the range 200 to 299.\<close>

definition ok :: "nat \<Rightarrow> bool" where
  "ok st = (200 \<le> st \<and> st \<le> 299)"

definition postRequest :: "runtime \<Rightarrow> string \<Rightarrow> jsval \<Rightarrow> jsval \<Rightarrow> upstream_request" where
  "postRequest rt base apiKey payload =
     \<lparr>req_method = ''POST'',
      req_url = stripTrailingSlashes base @ ''/api/contact/list'',
      req_headers =
        [(''Accept'', JStr ''application/json''),
         (''Content-Type'', JStr ''application/json''),
         (''X-Sleekflow-Api-Key'', apiKey)],
      req_body = JSON_stringify rt (js_or payload (JObj []))\<rparr>"

text \<open>
  The loop of \<open>postViaAvailableBase\<close>.  Everything after the URL is inside the \<^verbatim>\<open>try\<close>:
  a rejected \<^verbatim>\<open>fetch\<close> is caught, and so is \<^verbatim>\<open>await resp.text()\<close>, which rejects when the
  connection is lost before the end of the body, whatever the status of the head.
  \<^verbatim>\<open>fetch\<close> has timeouts of its own, so each call settles.
\<close>

fun postLoop ::
  "runtime \<Rightarrow> network \<Rightarrow> jsval \<Rightarrow> jsval \<Rightarrow> string list \<Rightarrow> jsval list \<Rightarrow> relay_state
     \<Rightarrow> response \<times> relay_state" where
  "postLoop rt net apiKey payload [] errors s =
     (\<lparr>status = 502, body = JSON_stringify rt (allFailed errors)\<rparr>, s)"
| "postLoop rt net apiKey payload (base # rest) errors s =
     (let req = postRequest rt base apiKey payload;
          s' = s\<lparr>outbound := outbound s @ [req]\<rparr>
      in case net (length (outbound s)) req of
           Responds st chunks \<Rightarrow>
             if ok st
             then (\<lparr>status = st, body = Response_text rt chunks\<rparr>,
                   s'\<lparr>pinnedBaseUrl := Some base\<rparr>)
             else postLoop rt net apiKey payload rest
                    (errors @ [rejected base st (Response_text rt chunks)]) s'
         | Fails message \<Rightarrow>
             postLoop rt net apiKey payload rest (errors @ [errored base message]) s'
         | Aborted st message \<Rightarrow>
             postLoop rt net apiKey payload rest (errors @ [errored base message]) s')"

definition postViaAvailableBase ::
  "runtime \<Rightarrow> network \<Rightarrow> jsval \<Rightarrow> jsval \<Rightarrow> relay_state \<Rightarrow> response \<times> relay_state" where
  "postViaAvailableBase rt net apiKey payload s =
     postLoop rt net apiKey payload (getBasesToTry (pinnedBaseUrl s)) [] s"

section \<open>The request handler\<close>

text \<open>
  \<open>readJsonBody\<close>: the chunks are concatenated and decoded; an empty text, and a text
  that \<^verbatim>\<open>JSON.parse\<close> rejects, both give the empty object.  An error of the stream is not
  caught here.
\<close>

definition readJsonBody :: "runtime \<Rightarrow> request \<Rightarrow> js_error + jsval" where
  "readJsonBody rt req =
     (case stream req of
        Inl err \<Rightarrow> Inl err
      | Inr chunks \<Rightarrow>
          (let raw = Buffer_toString rt (concat chunks)
           in if raw = [] then Inr (JObj [])
              else (case JSON_parse rt raw of
                      Some v \<Rightarrow> Inr v
                    | None \<Rightarrow> Inr (JObj []))))"

definition corsHeaders :: "(string \<times> string) list" where
  "corsHeaders =
     [(''Access-Control-Allow-Origin'', ''*''),
      (''Access-Control-Allow-Methods'', ''GET,POST,OPTIONS''),
      (''Access-Control-Allow-Headers'', ''Content-Type'')]"

text \<open>
  \<^verbatim>\<open>res.writeHead\<close> of Node marks a response with status 204, 304 or 100 to 199 as one
  without a body; what \<^verbatim>\<open>res.end\<close> is then given is not sent.
\<close>

definition hasBody :: "nat \<Rightarrow> bool" where
  "hasBody st = (\<not> (st = 204 \<or> st = 304 \<or> (100 \<le> st \<and> st \<le> 199)))"

text \<open>\<^verbatim>\<open>res.writeHead(st, { "Content-Type": "application/json" }); res.end(text)\<close>\<close>

definition writeJson :: "nat \<Rightarrow> string \<Rightarrow> server_response" where
  "writeJson st text =
     \<lparr>code = st,
      head = corsHeaders @ [(''Content-Type'', ''application/json'')],
      content = (if hasBody st then text else [])\<rparr>"

definition errorBody :: "runtime \<Rightarrow> string \<Rightarrow> string" where
  "errorBody rt message = JSON_stringify rt (JObj [(''error'', JStr message)])"

definition internalServerError :: "runtime \<Rightarrow> server_response" where
  "internalServerError rt = writeJson 500 (errorBody rt ''Internal server error'')"

text \<open>
  The branch for \<^verbatim>\<open>POST /api/records\<close>, with its \<^verbatim>\<open>try\<close>/\<^verbatim>\<open>catch\<close>.  The response is
  \<open>None\<close> when the handler never writes one: it waits for a call that never returns.
\<close>

definition apiRecords ::
  "runtime \<Rightarrow> network \<Rightarrow> request \<Rightarrow> relay_state \<Rightarrow> server_response option \<times> relay_state" where
  "apiRecords rt net req s =
     (case readJsonBody rt req of
        Inl err \<Rightarrow> (Some (internalServerError rt), s)
      | Inr parsed \<Rightarrow>
          (let b = js_or parsed (JObj []);
               apiKey = property b ''apiKey'';
               objectKey = property b ''objectKey'';
               continuationToken = orDefault (property b ''continuationToken'') (JStr [])
           in if \<not> truthy apiKey \<or> \<not> truthy objectKey
              then (Some (writeJson 400 (errorBody rt ''apiKey and objectKey are required'')), s)
              else (case fetchViaAvailableBase rt net apiKey objectKey continuationToken s of
                      (Some (Inr upstreamResponse), s') \<Rightarrow>
                        (Some (writeJson (status upstreamResponse)
                                 (str_or (body upstreamResponse) ''{}'')), s')
                    | (Some (Inl err), s') \<Rightarrow> (Some (internalServerError rt), s')
                    | (None, s') \<Rightarrow> (None, s'))))"

text \<open>The branch for \<^verbatim>\<open>POST /api/contact/list\<close>.\<close>

definition apiContactList ::
  "runtime \<Rightarrow> network \<Rightarrow> request \<Rightarrow> relay_state \<Rightarrow> server_response option \<times> relay_state" where
  "apiContactList rt net req s =
     (case readJsonBody rt req of
        Inl err \<Rightarrow> (Some (internalServerError rt), s)
      | Inr parsed \<Rightarrow>
          (let b = js_or parsed (JObj []);
               apiKey = property b ''apiKey'';
               groupListName = property b ''groupListName'';
               userProfileIds = property b ''userProfileIds''
           in if \<not> truthy apiKey \<or> \<not> truthy groupListName \<or> \<not> isArray userProfileIds
              then (Some (writeJson 400
                      (errorBody rt ''apiKey, groupListName, and userProfileIds are required'')), s)
              else (case postViaAvailableBase rt net apiKey
                           (JObj [(''groupListName'', groupListName),
                                  (''userProfileIds'', userProfileIds)]) s of
                      (upstreamResponse, s') \<Rightarrow>
                        (Some (writeJson (status upstreamResponse)
                                 (str_or (body upstreamResponse) ''{}'')), s'))))"

text \<open>
  The handler given to \<open>createServer\<close>, up to the two API routes.  The result \<open>None\<close>
  stands for a request that goes on to the static files (lines 91 to 109), which are
  not part of this development; \<open>Some (None, s')\<close> is a request that is never
  answered, and \<open>Some (Some r, s')\<close> one that is answered with \<open>r\<close>.
\<close>

definition handler ::
  "runtime \<Rightarrow> network \<Rightarrow> request \<Rightarrow> relay_state
     \<Rightarrow> (server_response option \<times> relay_state) option" where
  "handler rt net req s =
     (if http_method req = ''OPTIONS''
      then Some (Some \<lparr>code = 204, head = corsHeaders, content = []\<rparr>, s)
      else if url req = ''/api/records'' \<and> http_method req = ''POST''
      then Some (apiRecords rt net req s)
      else if url req = ''/api/contact/list'' \<and> http_method req = ''POST''
      then Some (apiContactList rt net req s)
      else None)"

section \<open>Notions used to state the properties\<close>

text \<open>The request \<open>fetchViaAvailableBase\<close> sends to one host, and the one of \<open>postViaAvailableBase\<close> is \<open>postRequest\<close>.\<close>

definition recordsRequest :: "runtime \<Rightarrow> jsval \<Rightarrow> string \<Rightarrow> jsval \<Rightarrow> string \<Rightarrow> upstream_request" where
  "recordsRequest rt apiKey enc continuationToken base =
     getRequest rt (recordsUrl base enc) (recordsHeaders apiKey)
       (JObj [(''continuationToken'', continuationToken)])"

text \<open>
  How each proxy takes an outcome.  The record fetch succeeds on
  \<^verbatim>\<open>resp.status === 200\<close>; it fails, and pushes an attempt record, on any other status of
  a whole response and on an error of the request; on an aborted response it does
  neither.  The contact list succeeds on \<^verbatim>\<open>resp.ok\<close> of a whole response and pushes an
  attempt record otherwise.
\<close>

fun fetchSucceeds :: "outcome \<Rightarrow> bool" where
  "fetchSucceeds (Responds st chunks) = (st = 200)"
| "fetchSucceeds (Fails message) = False"
| "fetchSucceeds (Aborted st message) = False"

fun fetchFails :: "outcome \<Rightarrow> bool" where
  "fetchFails (Responds st chunks) = (st \<noteq> 200)"
| "fetchFails (Fails message) = True"
| "fetchFails (Aborted st message) = False"

fun fetchRecord :: "runtime \<Rightarrow> string \<Rightarrow> outcome \<Rightarrow> jsval option" where
  "fetchRecord rt base (Responds st chunks) =
     (if st = 200 then None
      else Some (rejected base (if st \<noteq> 0 then st else 500) (Buffer_toString rt chunks)))"
| "fetchRecord rt base (Fails message) = Some (errored base message)"
| "fetchRecord rt base (Aborted st message) = None"

fun postSucceeds :: "outcome \<Rightarrow> bool" where
  "postSucceeds (Responds st chunks) = ok st"
| "postSucceeds (Fails message) = False"
| "postSucceeds (Aborted st message) = False"

fun postAttempt :: "runtime \<Rightarrow> string \<Rightarrow> outcome \<Rightarrow> jsval" where
  "postAttempt rt base (Responds st chunks) = rejected base st (Response_text rt chunks)"
| "postAttempt rt base (Fails message) = errored base message"
| "postAttempt rt base (Aborted st message) = errored base message"

text \<open>The pinned host is unset or one of the configured hosts.\<close>

definition pinned_valid :: "relay_state \<Rightarrow> bool" where
  "pinned_valid s =
     (case pinnedBaseUrl s of None \<Rightarrow> True | Some p \<Rightarrow> p \<in> set BASE_URLS)"

text \<open>
  What a request does to the state: either the answer is not a success status and the
  pinned host is as before, or call number \<open>i\<close> of the request was answered with a
  success status, which is the status sent to the client, and host \<open>i\<close> of the ordering
  is pinned.
\<close>

definition pin_kept :: "relay_state \<Rightarrow> server_response \<Rightarrow> relay_state \<Rightarrow> bool" where
  "pin_kept s r s' = (pinnedBaseUrl s' = pinnedBaseUrl s \<and> \<not> ok (code r))"

definition pin_written :: "network \<Rightarrow> relay_state \<Rightarrow> server_response \<Rightarrow> relay_state \<Rightarrow> bool" where
  "pin_written net s r s' =
     (\<exists>i<length (getBasesToTry (pinnedBaseUrl s)).
        pinnedBaseUrl s' = Some (getBasesToTry (pinnedBaseUrl s) ! i) \<and>
        length (outbound s') = length (outbound s) + Suc i \<and>
        (\<exists>st b. net (length (outbound s) + i) (last (outbound s')) = Responds st b \<and>
                 ok st \<and> code r = st))"

section \<open>Example inputs\<close>

text \<open>
  A stand-in runtime for the examples: it parses the documents of a table and rejects
  every other text, renders every value as one fixed text, encodes a string of
  unreserved characters as itself, and decodes bytes as themselves (the example bodies
  are ASCII).
\<close>

definition records_doc :: string where
  \<open>records_doc = ''{"apiKey":"k1","objectKey":"orders"}''\<close>

definition records_doc_without_apiKey :: string where
  \<open>records_doc_without_apiKey = ''{"objectKey":"orders"}''\<close>

definition contact_doc :: string where
  \<open>contact_doc = ''{"apiKey":"k1","groupListName":"vip","userProfileIds":[]}''\<close>

definition contact_doc_without_array :: string where
  \<open>contact_doc_without_array = ''{"apiKey":"k1","groupListName":"vip","userProfileIds":"u1"}''\<close>

definition malformed_doc :: string where
  \<open>malformed_doc = ''{"apiKey":''\<close>

definition example_documents :: "(string \<times> jsval) list" where
  "example_documents =
     [(records_doc,
         JObj [(''apiKey'', JStr ''k1''), (''objectKey'', JStr ''orders'')]),
      (records_doc_without_apiKey,
         JObj [(''objectKey'', JStr ''orders'')]),
      (contact_doc,
         JObj [(''apiKey'', JStr ''k1''), (''groupListName'', JStr ''vip''),
               (''userProfileIds'', JArr [])]),
      (contact_doc_without_array,
         JObj [(''apiKey'', JStr ''k1''), (''groupListName'', JStr ''vip''),
               (''userProfileIds'', JStr ''u1'')])]"

definition example_runtime :: runtime where
  "example_runtime =
     \<lparr>JSON_parse = map_of example_documents,
      JSON_stringify = (\<lambda>v. ''<json>''),
      encodeURIComponent = (\<lambda>v. case v of JStr k \<Rightarrow> Some k | _ \<Rightarrow> None),
      Buffer_toString = (\<lambda>bytes. bytes),
      Response_text = (\<lambda>bytes. bytes)\<rparr>"

definition records_post :: "string \<Rightarrow> request" where
  "records_post raw = \<lparr>http_method = ''POST'', url = ''/api/records'', stream = Inr [raw]\<rparr>"

definition contact_post :: "string \<Rightarrow> request" where
  "contact_post raw = \<lparr>http_method = ''POST'', url = ''/api/contact/list'', stream = Inr [raw]\<rparr>"

definition pinned_to_weu :: relay_state where
  "pinned_to_weu =
     \<lparr>pinnedBaseUrl = Some ''https://sleekflow-core-app-weu-production.azurewebsites.net'',
      outbound = []\<rparr>"

text \<open>
  Networks: every call fails; the first call is rejected and the others succeed; every
  call succeeds with an empty body; every call answers 201; every call answers 204 with
  no body; every call gets the head of a 503 and then loses the connection; the first
  four calls fail and the fifth loses the connection after the head.
\<close>

definition all_down :: network where
  "all_down n r = Fails ''connect ECONNREFUSED''"

definition first_call_rejected :: network where
  "first_call_rejected n r =
     (if n = 0 then Responds 503 ''Service Unavailable'' else Responds 200 ''[1,2]'')"

definition empty_success :: network where
  "empty_success n r = Responds 200 []"


definition no_content :: network where
  "no_content n r = Responds 204 []"

definition cut_off :: network where
  "cut_off n r = Aborted 503 ''aborted''"

definition last_cut_off :: network where
  "last_cut_off n r = (if n < 4 then Fails ''connect ECONNREFUSED'' else Aborted 503 ''aborted'')"

section \<open>The failover loops, one host at a time\<close>

lemma upt_shift: "map f [0..<Suc n] = f 0 # map (\<lambda>j. f (Suc j)) [0..<n]"
  by (induction n) simp_all

lemma fetchFails_iff_record: "fetchFails oc \<longleftrightarrow> (\<exists>a. fetchRecord rt base oc = Some a)"
  by (cases oc) simp_all

lemma fetchSucceeds_iff: "fetchSucceeds oc \<longleftrightarrow> (\<exists>chunks. oc = Responds 200 chunks)"
  by (cases oc) auto

lemma fetch_outcome_cases:
  obtains (won) "fetchSucceeds oc" | (lost) "fetchFails oc"
        | (cut) st message where "oc = Aborted st message"
  by (cases oc) auto

lemma postSucceeds_iff: "postSucceeds oc \<longleftrightarrow> (\<exists>st chunks. oc = Responds st chunks \<and> ok st)"
  by (cases oc) auto

lemma fetchLoop_step_fail:
  assumes "encodeURIComponent rt objectKey = Some enc"
    and "fetchRecord rt base (net (length (outbound s)) (recordsRequest rt apiKey enc tok base)) = Some a"
  shows "fetchLoop rt net apiKey objectKey tok (base # rest) errors s =
         fetchLoop rt net apiKey objectKey tok rest (errors @ [a])
           (s\<lparr>outbound := outbound s @ [recordsRequest rt apiKey enc tok base]\<rparr>)"
  using assms
  by (cases "net (length (outbound s)) (recordsRequest rt apiKey enc tok base)")
     (auto simp: proxyGetWithBody_def recordsRequest_def split: if_splits)

lemma fetchLoop_step_success:
  assumes "encodeURIComponent rt objectKey = Some enc"
    and "net (length (outbound s)) (recordsRequest rt apiKey enc tok base) = Responds 200 chunks"
  shows "fetchLoop rt net apiKey objectKey tok (base # rest) errors s =
         (Some (Inr \<lparr>status = 200, body = Buffer_toString rt chunks\<rparr>),
          s\<lparr>outbound := outbound s @ [recordsRequest rt apiKey enc tok base],
            pinnedBaseUrl := Some base\<rparr>)"
  using assms by (simp add: proxyGetWithBody_def recordsRequest_def)

lemma fetchLoop_step_aborted:
  assumes "encodeURIComponent rt objectKey = Some enc"
    and "net (length (outbound s)) (recordsRequest rt apiKey enc tok base) = Aborted st message"
  shows "fetchLoop rt net apiKey objectKey tok (base # rest) errors s =
         (None, s\<lparr>outbound := outbound s @ [recordsRequest rt apiKey enc tok base]\<rparr>)"
  using assms by (simp add: proxyGetWithBody_def recordsRequest_def)

lemma fetchLoop_throws:
  assumes "encodeURIComponent rt objectKey = None"
  shows "fetchLoop rt net apiKey objectKey tok (base # rest) errors s = (Some (Inl URIError), s)"
  using assms by simp

lemma fetchLoop_exhausted:
  assumes "encodeURIComponent rt objectKey = Some enc"
    and "length attempts = length bases"
    and "\<forall>j<length bases. fetchRecord rt (bases ! j)
           (net (length (outbound s) + j) (recordsRequest rt apiKey enc tok (bases ! j)))
           = Some (attempts ! j)"
  shows "fetchLoop rt net apiKey objectKey tok bases errors s =
         (Some (Inr \<lparr>status = 502, body = JSON_stringify rt (allFailed (errors @ attempts))\<rparr>),
          s\<lparr>outbound := outbound s @ map (recordsRequest rt apiKey enc tok) bases\<rparr>)"
  using assms(2,3)
proof (induction bases arbitrary: errors s attempts)
  case Nil
  then show ?case by simp
next
  case (Cons base rest)
  let ?req = "recordsRequest rt apiKey enc tok"
  let ?s' = "s\<lparr>outbound := outbound s @ [?req base]\<rparr>"
  from Cons.prems(1) obtain a others where attempts: "attempts = a # others"
    and len: "length others = length rest"
    by (cases attempts) auto
  from Cons.prems(2) have here: "fetchRecord rt base (net (length (outbound s)) (?req base)) = Some a"
    unfolding attempts by fastforce
  have later: "\<forall>j<length rest. fetchRecord rt (rest ! j)
       (net (length (outbound ?s') + j) (?req (rest ! j))) = Some (others ! j)"
  proof (intro allI impI)
    fix j assume "j < length rest"
    then have "Suc j < length (base # rest)" by simp
    with Cons.prems(2) have "fetchRecord rt ((base # rest) ! Suc j)
        (net (length (outbound s) + Suc j) (?req ((base # rest) ! Suc j))) = Some (attempts ! Suc j)"
      by blast
    then show "fetchRecord rt (rest ! j)
       (net (length (outbound ?s') + j) (?req (rest ! j))) = Some (others ! j)"
      by (simp add: attempts)
  qed
  have "fetchLoop rt net apiKey objectKey tok (base # rest) errors s =
        fetchLoop rt net apiKey objectKey tok rest (errors @ [a]) ?s'"
    by (rule fetchLoop_step_fail) (fact assms(1), fact here)
  also note Cons.IH[OF len later]
  finally show ?case
    by (simp add: attempts)
qed

lemma fetchLoop_first_success:
  assumes "encodeURIComponent rt objectKey = Some enc"
    and "i < length bases"
    and "\<forall>j<i. fetchFails
           (net (length (outbound s) + j) (recordsRequest rt apiKey enc tok (bases ! j)))"
    and "net (length (outbound s) + i) (recordsRequest rt apiKey enc tok (bases ! i))
           = Responds 200 chunks"
  shows "fetchLoop rt net apiKey objectKey tok bases errors s =
         (Some (Inr \<lparr>status = 200, body = Buffer_toString rt chunks\<rparr>),
          s\<lparr>outbound := outbound s @ map (recordsRequest rt apiKey enc tok) (take (Suc i) bases),
            pinnedBaseUrl := Some (bases ! i)\<rparr>)"
  using assms(2-)
proof (induction bases arbitrary: errors s i)
  case Nil
  then show ?case by simp
next
  case (Cons base rest)
  let ?req = "recordsRequest rt apiKey enc tok"
  let ?s' = "s\<lparr>outbound := outbound s @ [?req base]\<rparr>"
  show ?case
  proof (cases i)
    case 0
    with Cons.prems(3) show ?thesis
      using fetchLoop_step_success[OF assms(1), of net s apiKey tok base chunks rest errors] by simp
  next
    case (Suc k)
    from Cons.prems(2) Suc have "fetchFails (net (length (outbound s)) (?req base))"
      by fastforce
    then obtain a where here: "fetchRecord rt base (net (length (outbound s)) (?req base)) = Some a"
      unfolding fetchFails_iff_record[of _ rt base] by blast
    from Cons.prems(1) Suc have k: "k < length rest" by simp
    from Cons.prems(2) Suc have earlier: "\<forall>j<k. fetchFails
         (net (length (outbound ?s') + j) (?req (rest ! j)))"
      by fastforce
    from Cons.prems(3) Suc have win: "net (length (outbound ?s') + k) (?req (rest ! k))
        = Responds 200 chunks"
      by simp
    have "fetchLoop rt net apiKey objectKey tok (base # rest) errors s =
          fetchLoop rt net apiKey objectKey tok rest (errors @ [a]) ?s'"
      by (rule fetchLoop_step_fail) (fact assms(1), fact here)
    also note Cons.IH[OF k earlier win]
    finally show ?thesis
      by (simp add: Suc)
  qed
qed

lemma fetchLoop_first_aborted:
  assumes "encodeURIComponent rt objectKey = Some enc"
    and "i < length bases"
    and "\<forall>j<i. fetchFails
           (net (length (outbound s) + j) (recordsRequest rt apiKey enc tok (bases ! j)))"
    and "net (length (outbound s) + i) (recordsRequest rt apiKey enc tok (bases ! i))
           = Aborted st message"
  shows "fetchLoop rt net apiKey objectKey tok bases errors s =
         (None,
          s\<lparr>outbound := outbound s @ map (recordsRequest rt apiKey enc tok) (take (Suc i) bases)\<rparr>)"
  using assms(2-)
proof (induction bases arbitrary: errors s i)
  case Nil
  then show ?case by simp
next
  case (Cons base rest)
  let ?req = "recordsRequest rt apiKey enc tok"
  let ?s' = "s\<lparr>outbound := outbound s @ [?req base]\<rparr>"
  show ?case
  proof (cases i)
    case 0
    with Cons.prems(3) show ?thesis
      using fetchLoop_step_aborted[OF assms(1), of net s apiKey tok base st message rest errors]
      by simp
  next
    case (Suc k)
    from Cons.prems(2) Suc have "fetchFails (net (length (outbound s)) (?req base))"
      by fastforce
    then obtain a where here: "fetchRecord rt base (net (length (outbound s)) (?req base)) = Some a"
      unfolding fetchFails_iff_record[of _ rt base] by blast
    from Cons.prems(1) Suc have k: "k < length rest" by simp
    from Cons.prems(2) Suc have earlier: "\<forall>j<k. fetchFails
         (net (length (outbound ?s') + j) (?req (rest ! j)))"
      by fastforce
    from Cons.prems(3) Suc have cut: "net (length (outbound ?s') + k) (?req (rest ! k))
        = Aborted st message"
      by simp
    have "fetchLoop rt net apiKey objectKey tok (base # rest) errors s =
          fetchLoop rt net apiKey objectKey tok rest (errors @ [a]) ?s'"
      by (rule fetchLoop_step_fail) (fact assms(1), fact here)
    also note Cons.IH[OF k earlier cut]
    finally show ?thesis
      by (simp add: Suc)
  qed
qed

lemma postLoop_step_fail:
  assumes "\<not> postSucceeds (net (length (outbound s)) (postRequest rt base apiKey payload))"
  shows "postLoop rt net apiKey payload (base # rest) errors s =
         postLoop rt net apiKey payload rest
           (errors @ [postAttempt rt base (net (length (outbound s)) (postRequest rt base apiKey payload))])
           (s\<lparr>outbound := outbound s @ [postRequest rt base apiKey payload]\<rparr>)"
  using assms
  by (cases "net (length (outbound s)) (postRequest rt base apiKey payload)")
     (simp_all add: Let_def)

lemma postLoop_step_success:
  assumes "net (length (outbound s)) (postRequest rt base apiKey payload) = Responds st chunks"
    and "ok st"
  shows "postLoop rt net apiKey payload (base # rest) errors s =
         (\<lparr>status = st, body = Response_text rt chunks\<rparr>,
          s\<lparr>outbound := outbound s @ [postRequest rt base apiKey payload],
            pinnedBaseUrl := Some base\<rparr>)"
  using assms by (simp add: Let_def)

lemma postLoop_exhausted:
  assumes "\<forall>j<length bases. \<not> postSucceeds
           (net (length (outbound s) + j) (postRequest rt (bases ! j) apiKey payload))"
  shows "postLoop rt net apiKey payload bases errors s =
         (\<lparr>status = 502,
           body = JSON_stringify rt (allFailed (errors @
                 map (\<lambda>j. postAttempt rt (bases ! j)
                        (net (length (outbound s) + j) (postRequest rt (bases ! j) apiKey payload)))
                   [0..<length bases]))\<rparr>,
          s\<lparr>outbound := outbound s @ map (\<lambda>base. postRequest rt base apiKey payload) bases\<rparr>)"
  using assms
proof (induction bases arbitrary: errors s)
  case Nil
  then show ?case by simp
next
  case (Cons base rest)
  let ?req = "\<lambda>base. postRequest rt base apiKey payload"
  let ?s' = "s\<lparr>outbound := outbound s @ [?req base]\<rparr>"
  from Cons.prems have here: "\<not> postSucceeds (net (length (outbound s)) (?req base))"
    by fastforce
  from Cons.prems have later: "\<forall>j<length rest. \<not> postSucceeds
       (net (length (outbound ?s') + j) (?req (rest ! j)))"
    by fastforce
  have "postLoop rt net apiKey payload (base # rest) errors s =
        postLoop rt net apiKey payload rest
          (errors @ [postAttempt rt base (net (length (outbound s)) (?req base))]) ?s'"
    by (rule postLoop_step_fail) (fact here)
  also note Cons.IH[OF later]
  finally show ?case
    by (simp add: upt_shift del: upt_Suc)
qed

lemma postLoop_first_success:
  assumes "i < length bases"
    and "\<forall>j<i. \<not> postSucceeds
           (net (length (outbound s) + j) (postRequest rt (bases ! j) apiKey payload))"
    and "net (length (outbound s) + i) (postRequest rt (bases ! i) apiKey payload)
           = Responds st chunks"
    and "ok st"
  shows "postLoop rt net apiKey payload bases errors s =
         (\<lparr>status = st, body = Response_text rt chunks\<rparr>,
          s\<lparr>outbound := outbound s @ map (\<lambda>base. postRequest rt base apiKey payload) (take (Suc i) bases),
            pinnedBaseUrl := Some (bases ! i)\<rparr>)"
  using assms(1-3)
proof (induction bases arbitrary: errors s i)
  case Nil
  then show ?case by simp
next
  case (Cons base rest)
  let ?req = "\<lambda>base. postRequest rt base apiKey payload"
  let ?s' = "s\<lparr>outbound := outbound s @ [?req base]\<rparr>"
  show ?case
  proof (cases i)
    case 0
    with Cons.prems(3) show ?thesis
      using postLoop_step_success[of net s rt base apiKey payload st chunks rest errors] assms(4)
      by simp
  next
    case (Suc k)
    from Cons.prems(2) Suc have here: "\<not> postSucceeds (net (length (outbound s)) (?req base))"
      by fastforce
    from Cons.prems(1) Suc have k: "k < length rest" by simp
    from Cons.prems(2) Suc have earlier: "\<forall>j<k. \<not> postSucceeds
         (net (length (outbound ?s') + j) (?req (rest ! j)))"
      by fastforce
    from Cons.prems(3) Suc have win: "net (length (outbound ?s') + k) (?req (rest ! k))
        = Responds st chunks"
      by simp
    have "postLoop rt net apiKey payload (base # rest) errors s =
          postLoop rt net apiKey payload rest
            (errors @ [postAttempt rt base (net (length (outbound s)) (?req base))]) ?s'"
      by (rule postLoop_step_fail) (fact here)
    also note Cons.IH[OF k earlier win]
    finally show ?thesis
      by (simp add: Suc)
  qed
qed

section \<open>Facts about the host list\<close>

lemma BASE_URLS_distinct: "distinct BASE_URLS"
  by (simp add: BASE_URLS_def)

lemma BASE_URLS_nonempty: "[] \<notin> set BASE_URLS"
  by (simp add: BASE_URLS_def)

lemma getBasesToTry_no_empty_host: "[] \<notin> set (getBasesToTry pinned)"
  using BASE_URLS_nonempty by (auto simp: getBasesToTry_def split: option.splits)

lemma getBasesToTry_not_Nil: "getBasesToTry pinned \<noteq> []"
  by (cases pinned) (simp_all add: getBasesToTry_def BASE_URLS_def)

lemma getBasesToTry_pinned: "base \<noteq> [] \<Longrightarrow> getBasesToTry (Some base) = base # filter (\<lambda>b. b \<noteq> base) BASE_URLS"
  by (simp add: getBasesToTry_def)

lemma getBasesToTry_subset: "set (getBasesToTry pinned) \<subseteq> set BASE_URLS \<union> set_option pinned"
  by (cases pinned) (auto simp: getBasesToTry_def)

lemma length_getBasesToTry:
  assumes "pinned = None \<or> (\<exists>p. pinned = Some p \<and> p \<in> set BASE_URLS)"
  shows "length (getBasesToTry pinned) = length BASE_URLS"
proof (cases pinned)
  case None
  then show ?thesis by (simp add: getBasesToTry_def)
next
  case (Some p)
  with assms have mem: "p \<in> set BASE_URLS" by simp
  have "length (filter (\<lambda>b. b \<noteq> p) BASE_URLS) + length (filter (\<lambda>b. b = p) BASE_URLS) = length BASE_URLS"
    using sum_length_filter_compl[of "\<lambda>b. b \<noteq> p" BASE_URLS] by simp
  moreover have "length (filter (\<lambda>b. b = p) BASE_URLS) = 1"
    using BASE_URLS_distinct mem by (simp add: distinct_length_filter)
  ultimately show ?thesis using Some by (simp add: getBasesToTry_def)
qed

lemma length_getBasesToTry_valid: "pinned_valid s \<Longrightarrow> length (getBasesToTry (pinnedBaseUrl s)) = length BASE_URLS"
  by (rule length_getBasesToTry) (auto simp: pinned_valid_def split: option.splits)


section \<open>The ordering of the hosts\<close>

text \<open>
  C1.  Whatever the pinned host is, \<open>getBasesToTry\<close> gives the fixed host list when no
  host is pinned (the variable is \<^verbatim>\<open>null\<close>, or the empty string, which \<^verbatim>\<open>!\<close> treats alike);
  when a host is pinned it comes first, and the rest is the fixed list in its order with
  the pinned host left out.
\<close>

theorem getBasesToTry_ordering:
  "(pinned = None \<longrightarrow> getBasesToTry pinned = BASE_URLS) \<and>
   (pinned = Some [] \<longrightarrow> getBasesToTry pinned = BASE_URLS) \<and>
   (\<forall>p. pinned = Some p \<and> p \<noteq> [] \<longrightarrow>
      hd (getBasesToTry pinned) = p \<and>
      tl (getBasesToTry pinned) = filter (\<lambda>base. base \<noteq> p) BASE_URLS \<and>
      p \<notin> set (tl (getBasesToTry pinned)) \<and>
      set (tl (getBasesToTry pinned)) = set BASE_URLS - {p} \<and>
      subseq (tl (getBasesToTry pinned)) BASE_URLS)"
proof (cases pinned)
  case None
  then show ?thesis by (simp add: getBasesToTry_def)
next
  case (Some p)
  show ?thesis
  proof (cases "p = []")
    case True
    with Some show ?thesis by (simp add: getBasesToTry_def)
  next
    case False
    have "getBasesToTry pinned = p # filter (\<lambda>base. base \<noteq> p) BASE_URLS"
      using Some False by (simp add: getBasesToTry_pinned)
    moreover have "set (filter (\<lambda>base. base \<noteq> p) BASE_URLS) = set BASE_URLS - {p}"
      by auto
    ultimately show ?thesis using Some False by simp
  qed
qed

theorem getBasesToTry_ordering_witness:
  "hd (getBasesToTry (Some ''https://sleekflow-core-app-seas-production.azurewebsites.net''))
     = ''https://sleekflow-core-app-seas-production.azurewebsites.net'' \<and>
   tl (getBasesToTry (Some ''https://sleekflow-core-app-seas-production.azurewebsites.net''))
     = [''https://api.sleekflow.io'',
        ''https://sleekflow-core-app-eus-production.azurewebsites.net'',
        ''https://sleekflow-core-app-weu-production.azurewebsites.net'',
        ''https://sleekflow-core-app-uaen-production.azurewebsites.net'']"
  using getBasesToTry_ordering
          [of "Some ''https://sleekflow-core-app-seas-production.azurewebsites.net''"]
  by (simp add: BASE_URLS_def)

section \<open>The success tests of the two proxies\<close>



section \<open>Whole calls of the two proxies\<close>

lemma fetchViaAvailableBase_exhausted:
  assumes "encodeURIComponent rt objectKey = Some enc"
    and "length attempts = length (getBasesToTry (pinnedBaseUrl s))"
    and "\<forall>j<length (getBasesToTry (pinnedBaseUrl s)). fetchRecord rt (getBasesToTry (pinnedBaseUrl s) ! j)
           (net (length (outbound s) + j)
              (recordsRequest rt apiKey enc tok (getBasesToTry (pinnedBaseUrl s) ! j)))
           = Some (attempts ! j)"
  shows "fetchViaAvailableBase rt net apiKey objectKey tok s =
         (Some (Inr \<lparr>status = 502, body = JSON_stringify rt (allFailed attempts)\<rparr>),
          s\<lparr>outbound := outbound s @
               map (recordsRequest rt apiKey enc tok) (getBasesToTry (pinnedBaseUrl s))\<rparr>)"
  unfolding fetchViaAvailableBase_def
  using fetchLoop_exhausted[where errors = "[]", OF assms] by simp

text \<open>When every attempt fails there are such attempt records.\<close>

lemma fetch_records_exist:
  assumes "\<forall>j<n. fetchFails (oc j)"
  obtains attempts where "length attempts = n"
    and "\<forall>j<n. fetchRecord rt (bases ! j) (oc j) = Some (attempts ! j)"
proof -
  let ?as = "map (\<lambda>j. the (fetchRecord rt (bases ! j) (oc j))) [0..<n]"
  have "\<forall>j<n. fetchRecord rt (bases ! j) (oc j) = Some (?as ! j)"
  proof (intro allI impI)
    fix j assume j: "j < n"
    with assms have "fetchFails (oc j)" by blast
    then obtain a where "fetchRecord rt (bases ! j) (oc j) = Some a"
      unfolding fetchFails_iff_record[of _ rt "bases ! j"] by blast
    with j show "fetchRecord rt (bases ! j) (oc j) = Some (?as ! j)" by simp
  qed
  moreover have "length ?as = n" by simp
  ultimately show thesis using that by blast
qed

lemma fetchViaAvailableBase_first_success:
  assumes "encodeURIComponent rt objectKey = Some enc"
    and "i < length (getBasesToTry (pinnedBaseUrl s))"
    and "\<forall>j<i. fetchFails
           (net (length (outbound s) + j)
              (recordsRequest rt apiKey enc tok (getBasesToTry (pinnedBaseUrl s) ! j)))"
    and "net (length (outbound s) + i)
           (recordsRequest rt apiKey enc tok (getBasesToTry (pinnedBaseUrl s) ! i))
           = Responds 200 chunks"
  shows "fetchViaAvailableBase rt net apiKey objectKey tok s =
         (Some (Inr \<lparr>status = 200, body = Buffer_toString rt chunks\<rparr>),
          s\<lparr>outbound := outbound s @
               map (recordsRequest rt apiKey enc tok) (take (Suc i) (getBasesToTry (pinnedBaseUrl s))),
            pinnedBaseUrl := Some (getBasesToTry (pinnedBaseUrl s) ! i)\<rparr>)"
  unfolding fetchViaAvailableBase_def
  by (rule fetchLoop_first_success) (fact assms)+

lemma fetchViaAvailableBase_first_aborted:
  assumes "encodeURIComponent rt objectKey = Some enc"
    and "i < length (getBasesToTry (pinnedBaseUrl s))"
    and "\<forall>j<i. fetchFails
           (net (length (outbound s) + j)
              (recordsRequest rt apiKey enc tok (getBasesToTry (pinnedBaseUrl s) ! j)))"
    and "net (length (outbound s) + i)
           (recordsRequest rt apiKey enc tok (getBasesToTry (pinnedBaseUrl s) ! i))
           = Aborted st message"
  shows "fetchViaAvailableBase rt net apiKey objectKey tok s =
         (None,
          s\<lparr>outbound := outbound s @
               map (recordsRequest rt apiKey enc tok) (take (Suc i) (getBasesToTry (pinnedBaseUrl s)))\<rparr>)"
  unfolding fetchViaAvailableBase_def
  by (rule fetchLoop_first_aborted) (fact assms)+

lemma postViaAvailableBase_exhausted:
  assumes "\<forall>j<length (getBasesToTry (pinnedBaseUrl s)). \<not> postSucceeds
           (net (length (outbound s) + j)
              (postRequest rt (getBasesToTry (pinnedBaseUrl s) ! j) apiKey payload))"
  shows "postViaAvailableBase rt net apiKey payload s =
         (\<lparr>status = 502,
           body = JSON_stringify rt (allFailed
                 (map (\<lambda>j. postAttempt rt (getBasesToTry (pinnedBaseUrl s) ! j)
                        (net (length (outbound s) + j)
                           (postRequest rt (getBasesToTry (pinnedBaseUrl s) ! j) apiKey payload)))
                   [0..<length (getBasesToTry (pinnedBaseUrl s))]))\<rparr>,
          s\<lparr>outbound := outbound s @
               map (\<lambda>base. postRequest rt base apiKey payload) (getBasesToTry (pinnedBaseUrl s))\<rparr>)"
  unfolding postViaAvailableBase_def
  using postLoop_exhausted[where errors = "[]", OF assms] by simp

lemma postViaAvailableBase_first_success:
  assumes "i < length (getBasesToTry (pinnedBaseUrl s))"
    and "\<forall>j<i. \<not> postSucceeds
           (net (length (outbound s) + j)
              (postRequest rt (getBasesToTry (pinnedBaseUrl s) ! j) apiKey payload))"
    and "net (length (outbound s) + i)
           (postRequest rt (getBasesToTry (pinnedBaseUrl s) ! i) apiKey payload) = Responds st chunks"
    and "ok st"
  shows "postViaAvailableBase rt net apiKey payload s =
         (\<lparr>status = st, body = Response_text rt chunks\<rparr>,
          s\<lparr>outbound := outbound s @
               map (\<lambda>base. postRequest rt base apiKey payload) (take (Suc i) (getBasesToTry (pinnedBaseUrl s))),
            pinnedBaseUrl := Some (getBasesToTry (pinnedBaseUrl s) ! i)\<rparr>)"
  unfolding postViaAvailableBase_def
  by (rule postLoop_first_success) (fact assms)+

lemma attempt_names_host:
  "fetchRecord rt base oc = Some a \<Longrightarrow> property a ''base'' = JStr base"
  "property (postAttempt rt base oc) ''base'' = JStr base"
  by (cases oc; auto simp: rejected_def errored_def split: if_splits)+

section \<open>Exhaustion\<close>

text \<open>
  When the attempt at every host of the ordering settles as a failure (a whole response
  with a status other than the success status, or an error of the request; for the
  contact list also a response cut off after its head), each proxy returns status 502
  with the body \<^verbatim>\<open>{"error": "All base URLs failed", "attempts": [...]}\<close>.  The attempts
  are as many as the hosts tried, which are as many as the configured hosts when the
  pinned host is unset or one of them (\<open>pinned_valid\<close>, which holds initially and is
  kept by every request); the \<open>j\<close>-th entry names the \<open>j\<close>-th host and carries the
  status and body of a rejection, or the message of an error.  Every host was called
  once, in order, and the pinned host is unchanged.
\<close>

lemma settled_failures_give_502:
  assumes "bases = getBasesToTry (pinnedBaseUrl s)"
    and "n = length (outbound s)"
    and "length fetched = length bases"
    and "posted = map (\<lambda>j. postAttempt rt (bases ! j)
                      (net' (n + j) (postRequest rt (bases ! j) apiKey' payload))) [0..<length bases]"
  shows
    "(encodeURIComponent rt objectKey = Some enc \<and>
      (\<forall>j<length bases. fetchRecord rt (bases ! j)
           (net (n + j) (recordsRequest rt apiKey enc tok (bases ! j))) = Some (fetched ! j))
      \<longrightarrow> fetchViaAvailableBase rt net apiKey objectKey tok s =
            (Some (Inr \<lparr>status = 502,
                  body = JSON_stringify rt
                    (JObj [(''error'', JStr ''All base URLs failed''), (''attempts'', JArr fetched)])\<rparr>),
             s\<lparr>outbound := outbound s @ map (recordsRequest rt apiKey enc tok) bases\<rparr>) \<and>
          (\<forall>j<length bases. property (fetched ! j) ''base'' = JStr (bases ! j))) \<and>
     ((\<forall>j<length bases. \<not> postSucceeds (net' (n + j) (postRequest rt (bases ! j) apiKey' payload)))
      \<longrightarrow> postViaAvailableBase rt net' apiKey' payload s =
            (\<lparr>status = 502,
              body = JSON_stringify rt
                (JObj [(''error'', JStr ''All base URLs failed''), (''attempts'', JArr posted)])\<rparr>,
             s\<lparr>outbound := outbound s @ map (\<lambda>base. postRequest rt base apiKey' payload) bases\<rparr>)) \<and>
     length posted = length bases \<and>
     (pinned_valid s \<longrightarrow> length bases = length BASE_URLS) \<and>
     (\<forall>j<length bases. property (posted ! j) ''base'' = JStr (bases ! j))"
proof (intro conjI impI allI)
  assume h: "encodeURIComponent rt objectKey = Some enc \<and>
      (\<forall>j<length bases. fetchRecord rt (bases ! j)
           (net (n + j) (recordsRequest rt apiKey enc tok (bases ! j))) = Some (fetched ! j))"
  then have enc: "encodeURIComponent rt objectKey = Some enc" by simp
  have len: "length fetched = length (getBasesToTry (pinnedBaseUrl s))"
    using assms(1,3) by simp
  from h have recs: "\<forall>j<length (getBasesToTry (pinnedBaseUrl s)).
      fetchRecord rt (getBasesToTry (pinnedBaseUrl s) ! j)
           (net (length (outbound s) + j)
              (recordsRequest rt apiKey enc tok (getBasesToTry (pinnedBaseUrl s) ! j)))
           = Some (fetched ! j)"
    by (simp add: assms(1,2))
  show "fetchViaAvailableBase rt net apiKey objectKey tok s =
            (Some (Inr \<lparr>status = 502,
                  body = JSON_stringify rt
                    (JObj [(''error'', JStr ''All base URLs failed''), (''attempts'', JArr fetched)])\<rparr>),
             s\<lparr>outbound := outbound s @ map (recordsRequest rt apiKey enc tok) bases\<rparr>)"
    unfolding fetchViaAvailableBase_exhausted[OF enc len recs] assms(1) allFailed_def by (rule refl)
  fix j assume "j < length bases"
  with h have "fetchRecord rt (bases ! j)
           (net (n + j) (recordsRequest rt apiKey enc tok (bases ! j))) = Some (fetched ! j)"
    by blast
  then show "property (fetched ! j) ''base'' = JStr (bases ! j)"
    by (rule attempt_names_host(1))
next
  assume "\<forall>j<length bases. \<not> postSucceeds (net' (n + j) (postRequest rt (bases ! j) apiKey' payload))"
  then have fails: "\<forall>j<length (getBasesToTry (pinnedBaseUrl s)). \<not> postSucceeds
           (net' (length (outbound s) + j)
              (postRequest rt (getBasesToTry (pinnedBaseUrl s) ! j) apiKey' payload))"
    by (simp add: assms(1,2))
  show "postViaAvailableBase rt net' apiKey' payload s =
            (\<lparr>status = 502,
              body = JSON_stringify rt
                (JObj [(''error'', JStr ''All base URLs failed''), (''attempts'', JArr posted)])\<rparr>,
             s\<lparr>outbound := outbound s @ map (\<lambda>base. postRequest rt base apiKey' payload) bases\<rparr>)"
    unfolding postViaAvailableBase_exhausted[OF fails] assms(1,2,4) allFailed_def by (rule refl)
next
  show "length posted = length bases" by (simp add: assms(4))
next
  assume "pinned_valid s"
  then show "length bases = length BASE_URLS"
    by (simp add: assms(1) length_getBasesToTry_valid)
next
  fix j assume "j < length bases"
  then show "property (posted ! j) ''base'' = JStr (bases ! j)"
    by (simp add: assms(4) attempt_names_host(2))
qed

text \<open>
  C4.  The claim holds of the contact list, and of the record fetch when every attempt
  settles.  It fails of the record fetch when a host sends the head of a response and
  the connection is then lost: \<open>proxyGetWithBody\<close> has a listener for the error of the
  request and none for the response, its promise never settles, and the call never
  returns.  Here the first four hosts refuse the connection and the fifth is cut off
  after the head of its response: every attempt has failed, the record fetch does not
  return and the request is never answered, where the contact list returns 502 with
  the five attempts.
\<close>

theorem aborted_response_never_returns:
  "last_cut_off 4 (recordsRequest example_runtime (JStr ''k1'') ''orders'' (JStr []) (BASE_URLS ! 4))
     = Aborted 503 ''aborted'' \<and>
   fetchViaAvailableBase example_runtime last_cut_off (JStr ''k1'') (JStr ''orders'') (JStr [])
       initial_state =
     (None, initial_state\<lparr>outbound :=
        map (recordsRequest example_runtime (JStr ''k1'') ''orders'' (JStr [])) BASE_URLS\<rparr>) \<and>
   map_option fst (handler example_runtime last_cut_off (records_post records_doc) initial_state)
     = Some None \<and>
   fst (postViaAvailableBase example_runtime last_cut_off (JStr ''k1'') (JObj []) initial_state) =
     \<lparr>status = 502,
      body = JSON_stringify example_runtime
        (JObj [(''error'', JStr ''All base URLs failed''),
               (''attempts'', JArr
                  (map (\<lambda>base. errored base ''connect ECONNREFUSED'') (take 4 BASE_URLS) @
                   [errored (BASE_URLS ! 4) ''aborted'']))])\<rparr>"
proof (intro conjI)
  have bases: "getBasesToTry (pinnedBaseUrl initial_state) = BASE_URLS"
    by (simp add: initial_state_def getBasesToTry_def)
  have five: "length BASE_URLS = 5" by (simp add: BASE_URLS_def)
  have enc: "encodeURIComponent example_runtime (JStr ''orders'') = Some ''orders''"
    by (simp add: example_runtime_def)
  have n: "length (outbound initial_state) = 0" by (simp add: initial_state_def)
  show cut: "last_cut_off 4 (recordsRequest example_runtime (JStr ''k1'') ''orders'' (JStr []) (BASE_URLS ! 4))
     = Aborted 503 ''aborted''"
    by (simp add: last_cut_off_def)
  have i: "4 < length (getBasesToTry (pinnedBaseUrl initial_state))"
    by (simp add: bases five)
  have before: "\<forall>j<4. fetchFails (last_cut_off (length (outbound initial_state) + j)
      (recordsRequest example_runtime (JStr ''k1'') ''orders'' (JStr [])
         (getBasesToTry (pinnedBaseUrl initial_state) ! j)))"
    by (simp add: n last_cut_off_def)
  have at: "last_cut_off (length (outbound initial_state) + 4)
      (recordsRequest example_runtime (JStr ''k1'') ''orders'' (JStr [])
         (getBasesToTry (pinnedBaseUrl initial_state) ! 4)) = Aborted 503 ''aborted''"
    by (simp add: n last_cut_off_def)
  have all: "take (Suc 4) BASE_URLS = BASE_URLS" by (simp add: five)
  show call: "fetchViaAvailableBase example_runtime last_cut_off (JStr ''k1'') (JStr ''orders'') (JStr [])
       initial_state =
     (None, initial_state\<lparr>outbound :=
        map (recordsRequest example_runtime (JStr ''k1'') ''orders'' (JStr [])) BASE_URLS\<rparr>)"
    unfolding fetchViaAvailableBase_first_aborted[OF enc i before at] bases all
    by (simp add: initial_state_def)
  have parsed: "readJsonBody example_runtime (records_post records_doc) =
     Inr (JObj [(''apiKey'', JStr ''k1''), (''objectKey'', JStr ''orders'')])"
    by (simp add: readJsonBody_def records_post_def example_runtime_def example_documents_def
          records_doc_def)
  show "map_option fst (handler example_runtime last_cut_off (records_post records_doc) initial_state)
     = Some None"
    by (simp add: handler_def apiRecords_def parsed js_or_def orDefault_def call)
       (simp add: records_post_def)
  have down: "\<forall>j<length (getBasesToTry (pinnedBaseUrl initial_state)). \<not> postSucceeds
           (last_cut_off (length (outbound initial_state) + j)
              (postRequest example_runtime (getBasesToTry (pinnedBaseUrl initial_state) ! j)
                 (JStr ''k1'') (JObj [])))"
    by (simp add: last_cut_off_def)
  have attempts: "map (\<lambda>j. postAttempt example_runtime (BASE_URLS ! j)
                        (last_cut_off (0 + j)
                           (postRequest example_runtime (BASE_URLS ! j) (JStr ''k1'') (JObj []))))
                   [0..<length BASE_URLS]
      = map (\<lambda>base. errored base ''connect ECONNREFUSED'') (take 4 BASE_URLS) @
                   [errored (BASE_URLS ! 4) ''aborted'']"
    by (simp add: BASE_URLS_def last_cut_off_def upt_rec[of 0] upt_rec[of 1] upt_rec[of 2]
          upt_rec[of 3] upt_rec[of 4] upt_rec[of 5])
  show "fst (postViaAvailableBase example_runtime last_cut_off (JStr ''k1'') (JObj []) initial_state) =
     \<lparr>status = 502,
      body = JSON_stringify example_runtime
        (JObj [(''error'', JStr ''All base URLs failed''),
               (''attempts'', JArr
                  (map (\<lambda>base. errored base ''connect ECONNREFUSED'') (take 4 BASE_URLS) @
                   [errored (BASE_URLS ! 4) ''aborted'']))])\<rparr>"
    unfolding postViaAvailableBase_exhausted[OF down] bases n attempts allFailed_def
    by simp
qed

section \<open>Pinning\<close>

text \<open>
  C6.  When the hosts tried before host \<open>B\<close> fail (host \<open>A\<close> among them) and the attempt
  at \<open>B\<close> succeeds, the pinned host after the call is \<open>B\<close>, and the ordering computed
  from that state starts with \<open>B\<close>, followed by the other configured hosts.  This holds
  for both proxies, each with its own success test.
\<close>

theorem failover_pins_succeeding_host:
  assumes "bases = getBasesToTry (pinnedBaseUrl s)"
    and "n = length (outbound s)"
    and "i < length bases"
    and "B = bases ! i"
  shows
    "(encodeURIComponent rt objectKey = Some enc \<and>
      (\<forall>j<i. fetchFails (net (n + j) (recordsRequest rt apiKey enc tok (bases ! j)))) \<and>
      net (n + i) (recordsRequest rt apiKey enc tok B) = Responds 200 b
      \<longrightarrow> pinnedBaseUrl (snd (fetchViaAvailableBase rt net apiKey objectKey tok s)) = Some B \<and>
          getBasesToTry (pinnedBaseUrl (snd (fetchViaAvailableBase rt net apiKey objectKey tok s)))
            = B # filter (\<lambda>base. base \<noteq> B) BASE_URLS) \<and>
     ((\<forall>j<i. \<not> postSucceeds (net' (n + j) (postRequest rt (bases ! j) apiKey' payload))) \<and>
      net' (n + i) (postRequest rt B apiKey' payload) = Responds st b' \<and> 200 \<le> st \<and> st \<le> 299
      \<longrightarrow> pinnedBaseUrl (snd (postViaAvailableBase rt net' apiKey' payload s)) = Some B \<and>
          getBasesToTry (pinnedBaseUrl (snd (postViaAvailableBase rt net' apiKey' payload s)))
            = B # filter (\<lambda>base. base \<noteq> B) BASE_URLS)"
proof -
  have "B \<in> set (getBasesToTry (pinnedBaseUrl s))"
    using assms(1,3,4) by simp
  then have B: "B \<noteq> []"
    using getBasesToTry_no_empty_host[of "pinnedBaseUrl s"] by auto
  have i: "i < length (getBasesToTry (pinnedBaseUrl s))"
    using assms(1,3) by simp
  show ?thesis
  proof (intro conjI impI)
    assume h: "encodeURIComponent rt objectKey = Some enc \<and>
      (\<forall>j<i. fetchFails (net (n + j) (recordsRequest rt apiKey enc tok (bases ! j)))) \<and>
      net (n + i) (recordsRequest rt apiKey enc tok B) = Responds 200 b"
    then have enc: "encodeURIComponent rt objectKey = Some enc" by simp
    from h have before: "\<forall>j<i. fetchFails
           (net (length (outbound s) + j)
              (recordsRequest rt apiKey enc tok (getBasesToTry (pinnedBaseUrl s) ! j)))"
      by (simp add: assms(1,2))
    from h have win: "net (length (outbound s) + i)
           (recordsRequest rt apiKey enc tok (getBasesToTry (pinnedBaseUrl s) ! i)) = Responds 200 b"
      by (simp add: assms(1,2,4))
    have pin: "pinnedBaseUrl (snd (fetchViaAvailableBase rt net apiKey objectKey tok s)) = Some B"
      by (simp add: fetchViaAvailableBase_first_success[OF enc i before win] assms(1,4))
    show "pinnedBaseUrl (snd (fetchViaAvailableBase rt net apiKey objectKey tok s)) = Some B"
      by (fact pin)
    show "getBasesToTry (pinnedBaseUrl (snd (fetchViaAvailableBase rt net apiKey objectKey tok s)))
            = B # filter (\<lambda>base. base \<noteq> B) BASE_URLS"
      unfolding pin by (rule getBasesToTry_pinned) (fact B)
  next
    assume h: "(\<forall>j<i. \<not> postSucceeds (net' (n + j) (postRequest rt (bases ! j) apiKey' payload))) \<and>
      net' (n + i) (postRequest rt B apiKey' payload) = Responds st b' \<and> 200 \<le> st \<and> st \<le> 299"
    then have before: "\<forall>j<i. \<not> postSucceeds
           (net' (length (outbound s) + j)
              (postRequest rt (getBasesToTry (pinnedBaseUrl s) ! j) apiKey' payload))"
      by (simp add: assms(1,2))
    from h have win: "net' (length (outbound s) + i)
           (postRequest rt (getBasesToTry (pinnedBaseUrl s) ! i) apiKey' payload) = Responds st b'"
      by (simp add: assms(1,2,4))
    from h have st: "ok st" by (simp add: ok_def)
    have pin: "pinnedBaseUrl (snd (postViaAvailableBase rt net' apiKey' payload s)) = Some B"
      by (simp add: postViaAvailableBase_first_success[OF i before win st] assms(1,4))
    show "pinnedBaseUrl (snd (postViaAvailableBase rt net' apiKey' payload s)) = Some B"
      by (fact pin)
    show "getBasesToTry (pinnedBaseUrl (snd (postViaAvailableBase rt net' apiKey' payload s)))
            = B # filter (\<lambda>base. base \<noteq> B) BASE_URLS"
      unfolding pin by (rule getBasesToTry_pinned) (fact B)
  qed
qed

theorem failover_pins_succeeding_host_witness:
  "pinnedBaseUrl (snd (fetchViaAvailableBase example_runtime first_call_rejected
       (JStr ''k1'') (JStr ''orders'') (JStr []) initial_state))
     = Some ''https://sleekflow-core-app-eus-production.azurewebsites.net'' \<and>
   getBasesToTry (pinnedBaseUrl (snd (fetchViaAvailableBase example_runtime first_call_rejected
       (JStr ''k1'') (JStr ''orders'') (JStr []) initial_state)))
     = [''https://sleekflow-core-app-eus-production.azurewebsites.net'',
        ''https://api.sleekflow.io'',
        ''https://sleekflow-core-app-seas-production.azurewebsites.net'',
        ''https://sleekflow-core-app-weu-production.azurewebsites.net'',
        ''https://sleekflow-core-app-uaen-production.azurewebsites.net''] \<and>
   pinnedBaseUrl (snd (postViaAvailableBase example_runtime first_call_rejected
       (JStr ''k1'') (JObj []) initial_state))
     = Some ''https://sleekflow-core-app-eus-production.azurewebsites.net''"
proof -
  have bases: "getBasesToTry (pinnedBaseUrl initial_state) = BASE_URLS"
    by (simp add: initial_state_def getBasesToTry_def)
  have i: "1 < length (getBasesToTry (pinnedBaseUrl initial_state))"
    by (simp add: bases) (simp add: BASE_URLS_def)
  have B: "''https://sleekflow-core-app-eus-production.azurewebsites.net''
             = getBasesToTry (pinnedBaseUrl initial_state) ! 1"
    by (simp add: bases) (simp add: BASE_URLS_def)
  have enc: "encodeURIComponent example_runtime (JStr ''orders'') = Some ''orders''"
    by (simp add: example_runtime_def)
  have n: "length (outbound initial_state) = 0"
    by (simp add: initial_state_def)
  have rest: "filter (\<lambda>base. base \<noteq> ''https://sleekflow-core-app-eus-production.azurewebsites.net'') BASE_URLS
      = [''https://api.sleekflow.io'',
        ''https://sleekflow-core-app-seas-production.azurewebsites.net'',
        ''https://sleekflow-core-app-weu-production.azurewebsites.net'',
        ''https://sleekflow-core-app-uaen-production.azurewebsites.net'']"
    by (simp add: BASE_URLS_def)
  show ?thesis
    using failover_pins_succeeding_host
          [where s = initial_state and rt = example_runtime and i = 1
             and net = first_call_rejected and net' = first_call_rejected
             and objectKey = "JStr ''orders''" and enc = "''orders''" and apiKey = "JStr ''k1''"
             and apiKey' = "JStr ''k1''" and tok = "JStr []" and payload = "JObj []"
             and b = "''[1,2]''" and b' = "''[1,2]''" and st = 200,
           OF refl refl i B]
    by (simp add: enc n rest first_call_rejected_def ok_def getBasesToTry_def BASE_URLS_def)
qed

text \<open>
  C8.  When the pinned host is \<open>H\<close> and a call succeeds on \<open>H\<close>, the pinned host is
  still \<open>H\<close> afterwards and the ordering is the one it was: \<open>H\<close> first, then the other
  configured hosts in their fixed order.
\<close>

theorem pinning_idempotent:
  assumes "pinnedBaseUrl s = Some H"
    and "bases = getBasesToTry (pinnedBaseUrl s)"
    and "n = length (outbound s)"
    and "i < length bases"
    and "bases ! i = H"
  shows
    "(encodeURIComponent rt objectKey = Some enc \<and>
      (\<forall>j<i. fetchFails (net (n + j) (recordsRequest rt apiKey enc tok (bases ! j)))) \<and>
      net (n + i) (recordsRequest rt apiKey enc tok H) = Responds 200 b
      \<longrightarrow> pinnedBaseUrl (snd (fetchViaAvailableBase rt net apiKey objectKey tok s)) = Some H \<and>
          getBasesToTry (pinnedBaseUrl (snd (fetchViaAvailableBase rt net apiKey objectKey tok s)))
            = getBasesToTry (pinnedBaseUrl s)) \<and>
     ((\<forall>j<i. \<not> postSucceeds (net' (n + j) (postRequest rt (bases ! j) apiKey' payload))) \<and>
      net' (n + i) (postRequest rt H apiKey' payload) = Responds st b' \<and> 200 \<le> st \<and> st \<le> 299
      \<longrightarrow> pinnedBaseUrl (snd (postViaAvailableBase rt net' apiKey' payload s)) = Some H \<and>
          getBasesToTry (pinnedBaseUrl (snd (postViaAvailableBase rt net' apiKey' payload s)))
            = getBasesToTry (pinnedBaseUrl s)) \<and>
     hd (getBasesToTry (pinnedBaseUrl s)) = H \<and>
     tl (getBasesToTry (pinnedBaseUrl s)) = filter (\<lambda>base. base \<noteq> H) BASE_URLS"
proof -
  have "H \<in> set (getBasesToTry (pinnedBaseUrl s))"
    using assms(2,4,5) by auto
  then have H: "H \<noteq> []"
    using getBasesToTry_no_empty_host[of "pinnedBaseUrl s"] by auto
  have i: "i < length (getBasesToTry (pinnedBaseUrl s))"
    using assms(2,4) by simp
  have at_i: "getBasesToTry (pinnedBaseUrl s) ! i = H"
    using assms(2,5) by simp
  have order: "getBasesToTry (pinnedBaseUrl s) = H # filter (\<lambda>base. base \<noteq> H) BASE_URLS"
    unfolding assms(1) by (rule getBasesToTry_pinned) (fact H)
  show ?thesis
  proof (intro conjI impI)
    assume h: "encodeURIComponent rt objectKey = Some enc \<and>
      (\<forall>j<i. fetchFails (net (n + j) (recordsRequest rt apiKey enc tok (bases ! j)))) \<and>
      net (n + i) (recordsRequest rt apiKey enc tok H) = Responds 200 b"
    then have enc: "encodeURIComponent rt objectKey = Some enc" by simp
    from h have before: "\<forall>j<i. fetchFails
           (net (length (outbound s) + j)
              (recordsRequest rt apiKey enc tok (getBasesToTry (pinnedBaseUrl s) ! j)))"
      by (simp add: assms(2,3))
    from h have win: "net (length (outbound s) + i)
           (recordsRequest rt apiKey enc tok (getBasesToTry (pinnedBaseUrl s) ! i)) = Responds 200 b"
      by (simp add: at_i assms(3))
    have pin: "pinnedBaseUrl (snd (fetchViaAvailableBase rt net apiKey objectKey tok s)) = Some H"
      by (simp add: fetchViaAvailableBase_first_success[OF enc i before win] at_i)
    show "pinnedBaseUrl (snd (fetchViaAvailableBase rt net apiKey objectKey tok s)) = Some H"
      by (fact pin)
    show "getBasesToTry (pinnedBaseUrl (snd (fetchViaAvailableBase rt net apiKey objectKey tok s)))
            = getBasesToTry (pinnedBaseUrl s)"
      by (simp only: pin assms(1))
  next
    assume h: "(\<forall>j<i. \<not> postSucceeds (net' (n + j) (postRequest rt (bases ! j) apiKey' payload))) \<and>
      net' (n + i) (postRequest rt H apiKey' payload) = Responds st b' \<and> 200 \<le> st \<and> st \<le> 299"
    then have before: "\<forall>j<i. \<not> postSucceeds
           (net' (length (outbound s) + j)
              (postRequest rt (getBasesToTry (pinnedBaseUrl s) ! j) apiKey' payload))"
      by (simp add: assms(2,3))
    from h have win: "net' (length (outbound s) + i)
           (postRequest rt (getBasesToTry (pinnedBaseUrl s) ! i) apiKey' payload) = Responds st b'"
      by (simp add: at_i assms(3))
    from h have st: "ok st" by (simp add: ok_def)
    have pin: "pinnedBaseUrl (snd (postViaAvailableBase rt net' apiKey' payload s)) = Some H"
      by (simp add: postViaAvailableBase_first_success[OF i before win st] at_i)
    show "pinnedBaseUrl (snd (postViaAvailableBase rt net' apiKey' payload s)) = Some H"
      by (fact pin)
    show "getBasesToTry (pinnedBaseUrl (snd (postViaAvailableBase rt net' apiKey' payload s)))
            = getBasesToTry (pinnedBaseUrl s)"
      by (simp only: pin assms(1))
  next
    show "hd (getBasesToTry (pinnedBaseUrl s)) = H" by (simp add: order)
    show "tl (getBasesToTry (pinnedBaseUrl s)) = filter (\<lambda>base. base \<noteq> H) BASE_URLS"
      by (simp add: order)
  qed
qed

theorem pinning_idempotent_witness:
  "pinnedBaseUrl (snd (fetchViaAvailableBase example_runtime empty_success
       (JStr ''k1'') (JStr ''orders'') (JStr []) pinned_to_weu))
     = Some ''https://sleekflow-core-app-weu-production.azurewebsites.net'' \<and>
   getBasesToTry (pinnedBaseUrl (snd (fetchViaAvailableBase example_runtime empty_success
       (JStr ''k1'') (JStr ''orders'') (JStr []) pinned_to_weu)))
     = getBasesToTry (pinnedBaseUrl pinned_to_weu) \<and>
   pinnedBaseUrl (snd (postViaAvailableBase example_runtime empty_success
       (JStr ''k1'') (JObj []) pinned_to_weu))
     = Some ''https://sleekflow-core-app-weu-production.azurewebsites.net'' \<and>
   hd (getBasesToTry (pinnedBaseUrl pinned_to_weu))
     = ''https://sleekflow-core-app-weu-production.azurewebsites.net''"
proof -
  have pin: "pinnedBaseUrl pinned_to_weu = Some ''https://sleekflow-core-app-weu-production.azurewebsites.net''"
    by (simp add: pinned_to_weu_def)
  have i: "0 < length (getBasesToTry (pinnedBaseUrl pinned_to_weu))"
    by (simp add: pin getBasesToTry_def)
  have H: "getBasesToTry (pinnedBaseUrl pinned_to_weu) ! 0
             = ''https://sleekflow-core-app-weu-production.azurewebsites.net''"
    by (simp add: pin getBasesToTry_def)
  have enc: "encodeURIComponent example_runtime (JStr ''orders'') = Some ''orders''"
    by (simp add: example_runtime_def)
  show ?thesis
    using pinning_idempotent
          [where s = pinned_to_weu and rt = example_runtime and i = 0
             and net = empty_success and net' = empty_success
             and objectKey = "JStr ''orders''" and enc = "''orders''" and apiKey = "JStr ''k1''"
             and apiKey' = "JStr ''k1''" and tok = "JStr []" and payload = "JObj []"
             and b = "[]" and b' = "[]" and st = 200,
           OF pin refl refl i H]
    by (simp add: enc empty_success_def ok_def pin)
qed

section \<open>Validation and the body reader\<close>

lemma property_js_or: "property (js_or parsed (JObj [])) k = property parsed k"
  by (cases parsed) (simp_all add: js_or_def)

lemma handler_records:
  "url req = ''/api/records'' \<Longrightarrow> http_method req = ''POST''
     \<Longrightarrow> handler rt net req s = Some (apiRecords rt net req s)"
  by (simp add: handler_def)

lemma handler_contact:
  "url req = ''/api/contact/list'' \<Longrightarrow> http_method req = ''POST''
     \<Longrightarrow> handler rt net req s = Some (apiContactList rt net req s)"
  by (simp add: handler_def)



lemma apiRecords_invalid:
  assumes "readJsonBody rt req = Inr parsed"
    and "\<not> truthy (property parsed ''apiKey'') \<or> \<not> truthy (property parsed ''objectKey'')"
  shows "apiRecords rt net req s =
           (Some (writeJson 400 (errorBody rt ''apiKey and objectKey are required'')), s)"
  using assms by (auto simp: apiRecords_def Let_def property_js_or)

lemma apiContactList_invalid:
  assumes "readJsonBody rt req = Inr parsed"
    and "\<not> truthy (property parsed ''apiKey'') \<or> \<not> truthy (property parsed ''groupListName'')
           \<or> \<not> isArray (property parsed ''userProfileIds'')"
  shows "apiContactList rt net req s =
           (Some (writeJson 400 (errorBody rt ''apiKey, groupListName, and userProfileIds are required'')), s)"
  using assms by (auto simp: apiContactList_def Let_def property_js_or)

lemma apiRecords_valid:
  assumes "readJsonBody rt req = Inr parsed"
    and "truthy (property parsed ''apiKey'')" and "truthy (property parsed ''objectKey'')"
  shows "apiRecords rt net req s =
           (case fetchViaAvailableBase rt net (property parsed ''apiKey'') (property parsed ''objectKey'')
                   (orDefault (property parsed ''continuationToken'') (JStr [])) s of
              (Some (Inr upstreamResponse), s') \<Rightarrow>
                (Some (writeJson (status upstreamResponse) (str_or (body upstreamResponse) ''{}'')), s')
            | (Some (Inl err), s') \<Rightarrow> (Some (internalServerError rt), s')
            | (None, s') \<Rightarrow> (None, s'))"
  using assms by (simp add: apiRecords_def Let_def property_js_or)

lemma apiContactList_valid:
  assumes "readJsonBody rt req = Inr parsed"
    and "truthy (property parsed ''apiKey'')" and "truthy (property parsed ''groupListName'')"
    and "isArray (property parsed ''userProfileIds'')"
  shows "apiContactList rt net req s =
           (case postViaAvailableBase rt net (property parsed ''apiKey'')
                   (JObj [(''groupListName'', property parsed ''groupListName''),
                          (''userProfileIds'', property parsed ''userProfileIds'')]) s of
              (upstreamResponse, s') \<Rightarrow>
                (Some (writeJson (status upstreamResponse) (str_or (body upstreamResponse) ''{}'')), s'))"
  using assms by (simp add: apiContactList_def Let_def property_js_or)


text \<open>
  C3.  A request to \<^verbatim>\<open>/api/records\<close> whose body lacks \<open>apiKey\<close> or \<open>objectKey\<close>, and a
  request to \<^verbatim>\<open>/api/contact/list\<close> whose body lacks \<open>apiKey\<close> or \<open>groupListName\<close> or whose
  \<open>userProfileIds\<close> is not an array, is answered 400 with a JSON object holding the
  error message; the state after the request is the state before it, so no outbound
  call was issued and the pinned host is unchanged.
\<close>

theorem missing_fields_rejected:
  assumes "readJsonBody rt req = Inr parsed"
  shows
    "(url req = ''/api/records'' \<and> http_method req = ''POST'' \<and>
      (property parsed ''apiKey'' = JUndefined \<or> property parsed ''objectKey'' = JUndefined)
      \<longrightarrow> handler rt net req s =
            Some (Some \<lparr>code = 400,
                   head = corsHeaders @ [(''Content-Type'', ''application/json'')],
                   content = JSON_stringify rt
                     (JObj [(''error'', JStr ''apiKey and objectKey are required'')])\<rparr>, s)) \<and>
     (url req = ''/api/contact/list'' \<and> http_method req = ''POST'' \<and>
      (property parsed ''apiKey'' = JUndefined \<or> property parsed ''groupListName'' = JUndefined \<or>
       \<not> isArray (property parsed ''userProfileIds''))
      \<longrightarrow> handler rt net req s =
            Some (Some \<lparr>code = 400,
                   head = corsHeaders @ [(''Content-Type'', ''application/json'')],
                   content = JSON_stringify rt
                     (JObj [(''error'', JStr ''apiKey, groupListName, and userProfileIds are required'')])\<rparr>, s))"
proof (intro conjI impI)
  assume h: "url req = ''/api/records'' \<and> http_method req = ''POST'' \<and>
      (property parsed ''apiKey'' = JUndefined \<or> property parsed ''objectKey'' = JUndefined)"
  then have "\<not> truthy (property parsed ''apiKey'') \<or> \<not> truthy (property parsed ''objectKey'')"
    by auto
  from apiRecords_invalid[OF assms this] h
  show "handler rt net req s =
            Some (Some \<lparr>code = 400,
                   head = corsHeaders @ [(''Content-Type'', ''application/json'')],
                   content = JSON_stringify rt
                     (JObj [(''error'', JStr ''apiKey and objectKey are required'')])\<rparr>, s)"
    by (simp add: handler_records writeJson_def errorBody_def hasBody_def)
next
  assume h: "url req = ''/api/contact/list'' \<and> http_method req = ''POST'' \<and>
      (property parsed ''apiKey'' = JUndefined \<or> property parsed ''groupListName'' = JUndefined \<or>
       \<not> isArray (property parsed ''userProfileIds''))"
  then have "\<not> truthy (property parsed ''apiKey'') \<or> \<not> truthy (property parsed ''groupListName'')
           \<or> \<not> isArray (property parsed ''userProfileIds'')"
    by auto
  from apiContactList_invalid[OF assms this] h
  show "handler rt net req s =
            Some (Some \<lparr>code = 400,
                   head = corsHeaders @ [(''Content-Type'', ''application/json'')],
                   content = JSON_stringify rt
                     (JObj [(''error'', JStr ''apiKey, groupListName, and userProfileIds are required'')])\<rparr>, s)"
    by (simp add: handler_contact writeJson_def errorBody_def hasBody_def)
qed

lemma example_parses:
  "readJsonBody example_runtime (records_post records_doc) =
     Inr (JObj [(''apiKey'', JStr ''k1''), (''objectKey'', JStr ''orders'')])"
  "readJsonBody example_runtime (records_post records_doc_without_apiKey) =
     Inr (JObj [(''objectKey'', JStr ''orders'')])"
  "readJsonBody example_runtime (contact_post contact_doc) =
     Inr (JObj [(''apiKey'', JStr ''k1''), (''groupListName'', JStr ''vip''),
                (''userProfileIds'', JArr [])])"
  "readJsonBody example_runtime (contact_post contact_doc_without_array) =
     Inr (JObj [(''apiKey'', JStr ''k1''), (''groupListName'', JStr ''vip''),
                (''userProfileIds'', JStr ''u1'')])"
  "JSON_parse example_runtime malformed_doc = None"
  by (simp_all add: readJsonBody_def records_post_def contact_post_def example_runtime_def
        example_documents_def records_doc_def records_doc_without_apiKey_def contact_doc_def
        contact_doc_without_array_def malformed_doc_def)

theorem missing_fields_rejected_witness:
  "handler example_runtime all_down (records_post records_doc_without_apiKey) pinned_to_weu =
     Some (Some \<lparr>code = 400,
            head = corsHeaders @ [(''Content-Type'', ''application/json'')],
            content = JSON_stringify example_runtime
              (JObj [(''error'', JStr ''apiKey and objectKey are required'')])\<rparr>, pinned_to_weu) \<and>
   handler example_runtime all_down (contact_post contact_doc_without_array) pinned_to_weu =
     Some (Some \<lparr>code = 400,
            head = corsHeaders @ [(''Content-Type'', ''application/json'')],
            content = JSON_stringify example_runtime
              (JObj [(''error'', JStr ''apiKey, groupListName, and userProfileIds are required'')])\<rparr>,
           pinned_to_weu)"
  using missing_fields_rejected
          [where rt = example_runtime and req = "records_post records_doc_without_apiKey"
             and net = all_down and s = pinned_to_weu, OF example_parses(2)]
        missing_fields_rejected
          [where rt = example_runtime and req = "contact_post contact_doc_without_array"
             and net = all_down and s = pinned_to_weu, OF example_parses(4)]
  by (simp add: records_post_def contact_post_def)

section \<open>A body that is not JSON\<close>




section \<open>What the client receives on success\<close>

lemma apiRecords_success:
  assumes "readJsonBody rt req = Inr parsed"
    and "truthy (property parsed ''apiKey'')" and "truthy (property parsed ''objectKey'')"
    and "encodeURIComponent rt (property parsed ''objectKey'') = Some enc"
    and "i < length (getBasesToTry (pinnedBaseUrl s))"
    and "\<forall>j<i. fetchFails
           (net (length (outbound s) + j)
              (recordsRequest rt (property parsed ''apiKey'') enc
                 (orDefault (property parsed ''continuationToken'') (JStr []))
                 (getBasesToTry (pinnedBaseUrl s) ! j)))"
    and "net (length (outbound s) + i)
           (recordsRequest rt (property parsed ''apiKey'') enc
              (orDefault (property parsed ''continuationToken'') (JStr []))
              (getBasesToTry (pinnedBaseUrl s) ! i)) = Responds 200 chunks"
  shows "apiRecords rt net req s =
           (Some (writeJson 200 (str_or (Buffer_toString rt chunks) ''{}'')),
            s\<lparr>outbound := outbound s @
                 map (recordsRequest rt (property parsed ''apiKey'') enc
                        (orDefault (property parsed ''continuationToken'') (JStr [])))
                   (take (Suc i) (getBasesToTry (pinnedBaseUrl s))),
              pinnedBaseUrl := Some (getBasesToTry (pinnedBaseUrl s) ! i)\<rparr>)"
  unfolding apiRecords_valid[OF assms(1-3)]
    fetchViaAvailableBase_first_success[OF assms(4-7)]
  by simp

lemma apiContactList_success:
  assumes "readJsonBody rt req = Inr parsed"
    and "truthy (property parsed ''apiKey'')" and "truthy (property parsed ''groupListName'')"
    and "isArray (property parsed ''userProfileIds'')"
    and "i < length (getBasesToTry (pinnedBaseUrl s))"
    and "\<forall>j<i. \<not> postSucceeds
           (net (length (outbound s) + j)
              (postRequest rt (getBasesToTry (pinnedBaseUrl s) ! j) (property parsed ''apiKey'')
                 (JObj [(''groupListName'', property parsed ''groupListName''),
                        (''userProfileIds'', property parsed ''userProfileIds'')])))"
    and "net (length (outbound s) + i)
           (postRequest rt (getBasesToTry (pinnedBaseUrl s) ! i) (property parsed ''apiKey'')
              (JObj [(''groupListName'', property parsed ''groupListName''),
                     (''userProfileIds'', property parsed ''userProfileIds'')])) = Responds st chunks"
    and "ok st"
  shows "apiContactList rt net req s =
           (Some (writeJson st (str_or (Response_text rt chunks) ''{}'')),
            s\<lparr>outbound := outbound s @
                 map (\<lambda>base. postRequest rt base (property parsed ''apiKey'')
                        (JObj [(''groupListName'', property parsed ''groupListName''),
                               (''userProfileIds'', property parsed ''userProfileIds'')]))
                   (take (Suc i) (getBasesToTry (pinnedBaseUrl s))),
              pinnedBaseUrl := Some (getBasesToTry (pinnedBaseUrl s) ! i)\<rparr>)"
  unfolding apiContactList_valid[OF assms(1-4)]
    postViaAvailableBase_first_success[OF assms(5-8)]
  by simp


lemma sent_text:
  "ok st \<Longrightarrow> content (writeJson st (str_or text ''{}'')) =
     (if st = 204 then [] else if text = [] then ''{}'' else text)"
  "content (writeJson 200 (str_or text ''{}'')) = (if text = [] then ''{}'' else text)"
  by (auto simp: writeJson_def str_or_def hasBody_def ok_def)





text \<open>
  C10, as the claim states it, fails on the contact-list route at status 204: the host
  answers 204 with an empty body, the call succeeds, the handler gives \<^verbatim>\<open>{}\<close> to
  \<^verbatim>\<open>res.end\<close>, and the response, being a 204, is sent without a body.
\<close>

theorem empty_body_counterexample:
  "no_content (length (outbound initial_state))
      (postRequest example_runtime (hd (getBasesToTry (pinnedBaseUrl initial_state))) (JStr ''k1'')
         (JObj [(''groupListName'', JStr ''vip''), (''userProfileIds'', JArr [])]))
     = Responds 204 [] \<and>
   map_option fst
     (handler example_runtime no_content (contact_post contact_doc) initial_state)
     = Some (Some \<lparr>code = 204,
                 head = corsHeaders @ [(''Content-Type'', ''application/json'')],
                 content = []\<rparr>)"
proof -
  have i: "0 < length (getBasesToTry (pinnedBaseUrl initial_state))"
    using getBasesToTry_not_Nil[of "pinnedBaseUrl initial_state"] by simp
  have "apiContactList example_runtime no_content (contact_post contact_doc) initial_state =
          (Some (writeJson 204 (str_or (Response_text example_runtime []) ''{}'')),
           initial_state\<lparr>outbound := outbound initial_state @
                 map (\<lambda>base. postRequest example_runtime base
                        (property (JObj [(''apiKey'', JStr ''k1''), (''groupListName'', JStr ''vip''),
                                         (''userProfileIds'', JArr [])]) ''apiKey'')
                        (JObj [(''groupListName'',
                                property (JObj [(''apiKey'', JStr ''k1''), (''groupListName'', JStr ''vip''),
                                         (''userProfileIds'', JArr [])]) ''groupListName''),
                               (''userProfileIds'',
                                property (JObj [(''apiKey'', JStr ''k1''), (''groupListName'', JStr ''vip''),
                                         (''userProfileIds'', JArr [])]) ''userProfileIds'')]))
                   (take (Suc 0) (getBasesToTry (pinnedBaseUrl initial_state))),
              pinnedBaseUrl := Some (getBasesToTry (pinnedBaseUrl initial_state) ! 0)\<rparr>)"
    by (rule apiContactList_success[OF example_parses(3) _ _ _ i])
       (simp_all add: no_content_def ok_def)
  then show ?thesis
    by (simp add: handler_def contact_post_def writeJson_def hasBody_def no_content_def)
qed

text \<open>
  C10, amended.  When a call succeeds (at the first host or after failed attempts) and
  the text of the successful response is empty, the handler ends the response with
  \<^verbatim>\<open>{}\<close>: the client receives the upstream status with the body \<^verbatim>\<open>{}\<close>, except at
  status 204, which only the contact-list route can pass on, where it receives no body.
\<close>

theorem empty_body_rewritten:
  assumes "readJsonBody rt req = Inr parsed"
    and "bases = getBasesToTry (pinnedBaseUrl s)"
    and "n = length (outbound s)"
    and "i < length bases"
    and "apiKey = property parsed ''apiKey''"
    and "objectKey = property parsed ''objectKey''"
    and "tok = orDefault (property parsed ''continuationToken'') (JStr [])"
    and "payload = JObj [(''groupListName'', property parsed ''groupListName''),
                         (''userProfileIds'', property parsed ''userProfileIds'')]"
  shows
    "(url req = ''/api/records'' \<and> http_method req = ''POST'' \<and>
      truthy apiKey \<and> truthy objectKey \<and> encodeURIComponent rt objectKey = Some enc \<and>
      (\<forall>j<i. fetchFails (net (n + j) (recordsRequest rt apiKey enc tok (bases ! j)))) \<and>
      net (n + i) (recordsRequest rt apiKey enc tok (bases ! i)) = Responds 200 b \<and>
      Buffer_toString rt b = []
      \<longrightarrow> fst (fetchViaAvailableBase rt net apiKey objectKey tok s) =
            Some (Inr \<lparr>status = 200, body = []\<rparr>) \<and>
          map_option fst (handler rt net req s) =
            Some (Some \<lparr>code = 200,
                  head = corsHeaders @ [(''Content-Type'', ''application/json'')],
                  content = ''{}''\<rparr>)) \<and>
     (url req = ''/api/contact/list'' \<and> http_method req = ''POST'' \<and>
      truthy apiKey \<and> truthy (property parsed ''groupListName'') \<and>
      isArray (property parsed ''userProfileIds'') \<and>
      (\<forall>j<i. \<not> postSucceeds (net' (n + j) (postRequest rt (bases ! j) apiKey payload))) \<and>
      net' (n + i) (postRequest rt (bases ! i) apiKey payload) = Responds st b' \<and>
      Response_text rt b' = [] \<and> 200 \<le> st \<and> st \<le> 299
      \<longrightarrow> fst (postViaAvailableBase rt net' apiKey payload s) = \<lparr>status = st, body = []\<rparr> \<and>
          map_option fst (handler rt net' req s) =
            Some (Some \<lparr>code = st,
                  head = corsHeaders @ [(''Content-Type'', ''application/json'')],
                  content = (if st = 204 then [] else ''{}'')\<rparr>))"
proof (intro conjI impI)
  assume h: "url req = ''/api/records'' \<and> http_method req = ''POST'' \<and>
      truthy apiKey \<and> truthy objectKey \<and> encodeURIComponent rt objectKey = Some enc \<and>
      (\<forall>j<i. fetchFails (net (n + j) (recordsRequest rt apiKey enc tok (bases ! j)))) \<and>
      net (n + i) (recordsRequest rt apiKey enc tok (bases ! i)) = Responds 200 b \<and>
      Buffer_toString rt b = []"
  have i: "i < length (getBasesToTry (pinnedBaseUrl s))"
    using assms(2,4) by simp
  from h have enc: "encodeURIComponent rt (property parsed ''objectKey'') = Some enc"
    by (simp add: assms(6))
  from h have before: "\<forall>j<i. fetchFails
           (net (length (outbound s) + j)
              (recordsRequest rt (property parsed ''apiKey'') enc
                 (orDefault (property parsed ''continuationToken'') (JStr []))
                 (getBasesToTry (pinnedBaseUrl s) ! j)))"
    by (simp add: assms(2,3,5,7))
  from h have win: "net (length (outbound s) + i)
           (recordsRequest rt (property parsed ''apiKey'') enc
              (orDefault (property parsed ''continuationToken'') (JStr []))
              (getBasesToTry (pinnedBaseUrl s) ! i)) = Responds 200 b"
    by (simp add: assms(2,3,5,7))
  from h have empty: "Buffer_toString rt b = []" by simp
  show "fst (fetchViaAvailableBase rt net apiKey objectKey tok s) =
            Some (Inr \<lparr>status = 200, body = []\<rparr>)"
    unfolding assms(5-7) fetchViaAvailableBase_first_success[OF enc i before win]
    by (simp add: empty)
  from h have valid: "truthy (property parsed ''apiKey'')" "truthy (property parsed ''objectKey'')"
    by (simp_all add: assms(5,6))
  from h show "map_option fst (handler rt net req s) =
            Some (Some \<lparr>code = 200,
                  head = corsHeaders @ [(''Content-Type'', ''application/json'')],
                  content = ''{}''\<rparr>)"
    by (simp add: handler_records apiRecords_success[OF assms(1) valid enc i before win]
          writeJson_def str_or_def hasBody_def)
next
  assume h: "url req = ''/api/contact/list'' \<and> http_method req = ''POST'' \<and>
      truthy apiKey \<and> truthy (property parsed ''groupListName'') \<and>
      isArray (property parsed ''userProfileIds'') \<and>
      (\<forall>j<i. \<not> postSucceeds (net' (n + j) (postRequest rt (bases ! j) apiKey payload))) \<and>
      net' (n + i) (postRequest rt (bases ! i) apiKey payload) = Responds st b' \<and>
      Response_text rt b' = [] \<and> 200 \<le> st \<and> st \<le> 299"
  have i: "i < length (getBasesToTry (pinnedBaseUrl s))"
    using assms(2,4) by simp
  from h have st: "ok st" by (simp add: ok_def)
  from h have before: "\<forall>j<i. \<not> postSucceeds
           (net' (length (outbound s) + j)
              (postRequest rt (getBasesToTry (pinnedBaseUrl s) ! j) (property parsed ''apiKey'')
                 (JObj [(''groupListName'', property parsed ''groupListName''),
                        (''userProfileIds'', property parsed ''userProfileIds'')])))"
    by (simp add: assms(2,3,5,8))
  from h have win: "net' (length (outbound s) + i)
           (postRequest rt (getBasesToTry (pinnedBaseUrl s) ! i) (property parsed ''apiKey'')
              (JObj [(''groupListName'', property parsed ''groupListName''),
                     (''userProfileIds'', property parsed ''userProfileIds'')])) = Responds st b'"
    by (simp add: assms(2,3,5,8))
  from h have empty: "Response_text rt b' = []" by simp
  show "fst (postViaAvailableBase rt net' apiKey payload s) = \<lparr>status = st, body = []\<rparr>"
    unfolding assms(5,8) postViaAvailableBase_first_success[OF i before win st]
    by (simp add: empty)
  from h have valid: "truthy (property parsed ''apiKey'')" "truthy (property parsed ''groupListName'')"
    "isArray (property parsed ''userProfileIds'')"
    by (simp_all add: assms(5))
  have "content (writeJson st (str_or (Response_text rt b') ''{}'')) =
          (if st = 204 then [] else ''{}'')"
    by (simp add: sent_text(1)[OF st] empty)
  with h show "map_option fst (handler rt net' req s) =
            Some (Some \<lparr>code = st,
                  head = corsHeaders @ [(''Content-Type'', ''application/json'')],
                  content = (if st = 204 then [] else ''{}'')\<rparr>)"
    by (simp add: handler_contact apiContactList_success[OF assms(1) valid i before win st]
          writeJson_def)
qed

theorem empty_body_rewritten_witness:
  "map_option fst (handler example_runtime empty_success (records_post records_doc) pinned_to_weu) =
     Some (Some \<lparr>code = 200,
           head = corsHeaders @ [(''Content-Type'', ''application/json'')],
           content = ''{}''\<rparr>) \<and>
   map_option fst (handler example_runtime empty_success (contact_post contact_doc) pinned_to_weu) =
     Some (Some \<lparr>code = 200,
           head = corsHeaders @ [(''Content-Type'', ''application/json'')],
           content = ''{}''\<rparr>) \<and>
   map_option fst (handler example_runtime no_content (contact_post contact_doc) pinned_to_weu) =
     Some (Some \<lparr>code = 204,
           head = corsHeaders @ [(''Content-Type'', ''application/json'')],
           content = []\<rparr>)"
proof -
  have i: "0 < length (getBasesToTry (pinnedBaseUrl pinned_to_weu))"
    using getBasesToTry_not_Nil[of "pinnedBaseUrl pinned_to_weu"] by simp
  have enc: "encodeURIComponent example_runtime (JStr ''orders'') = Some ''orders''"
    by (simp add: example_runtime_def)
  have decode: "Buffer_toString example_runtime x = x" "Response_text example_runtime x = x" for x
    by (simp_all add: example_runtime_def)
  show ?thesis
    using empty_body_rewritten
            [where net = empty_success and enc = "''orders''" and b = "[]",
             OF example_parses(1) refl refl i refl refl refl refl]
          empty_body_rewritten
            [where net' = empty_success and st = 200 and b' = "[]",
             OF example_parses(3) refl refl i refl refl refl refl]
          empty_body_rewritten
            [where net' = no_content and st = 204 and b' = "[]",
             OF example_parses(3) refl refl i refl refl refl refl]
    by (simp add: enc decode records_post_def contact_post_def empty_success_def no_content_def)
qed

section \<open>The life of the pinned host\<close>

lemma first_index:
  assumes "\<exists>i<(n::nat). P i"
  obtains i where "i < n" and "P i" and "\<forall>j<i. \<not> P j"
proof -
  let ?Q = "\<lambda>i. i < n \<and> P i"
  from assms have ex: "\<exists>i. ?Q i" by blast
  then have least: "?Q (LEAST i. ?Q i)" by (rule LeastI_ex)
  have "\<forall>j<(LEAST i. ?Q i). \<not> P j"
  proof (intro allI impI)
    fix j assume j: "j < (LEAST i. ?Q i)"
    then have "\<not> ?Q j" by (rule not_less_Least)
    moreover from j least have "j < n" by simp
    ultimately show "\<not> P j" by simp
  qed
  with least that show thesis by blast
qed

lemma fetchViaAvailableBase_cases:
  obtains
    (throws) "encodeURIComponent rt objectKey = None"
      and "fetchViaAvailableBase rt net apiKey objectKey tok s = (Some (Inl URIError), s)"
  | (exhausted) enc attempts where "encodeURIComponent rt objectKey = Some enc"
      and "length attempts = length (getBasesToTry (pinnedBaseUrl s))"
      and "\<forall>j<length (getBasesToTry (pinnedBaseUrl s)).
             fetchRecord rt (getBasesToTry (pinnedBaseUrl s) ! j)
               (net (length (outbound s) + j)
                  (recordsRequest rt apiKey enc tok (getBasesToTry (pinnedBaseUrl s) ! j)))
             = Some (attempts ! j)"
  | (success) enc i chunks where "encodeURIComponent rt objectKey = Some enc"
      and "i < length (getBasesToTry (pinnedBaseUrl s))"
      and "\<forall>j<i. fetchFails
             (net (length (outbound s) + j)
                (recordsRequest rt apiKey enc tok (getBasesToTry (pinnedBaseUrl s) ! j)))"
      and "net (length (outbound s) + i)
             (recordsRequest rt apiKey enc tok (getBasesToTry (pinnedBaseUrl s) ! i))
             = Responds 200 chunks"
  | (aborted) enc i st message where "encodeURIComponent rt objectKey = Some enc"
      and "i < length (getBasesToTry (pinnedBaseUrl s))"
      and "\<forall>j<i. fetchFails
             (net (length (outbound s) + j)
                (recordsRequest rt apiKey enc tok (getBasesToTry (pinnedBaseUrl s) ! j)))"
      and "net (length (outbound s) + i)
             (recordsRequest rt apiKey enc tok (getBasesToTry (pinnedBaseUrl s) ! i))
             = Aborted st message"
proof (cases "encodeURIComponent rt objectKey")
  case None
  obtain base rest where "getBasesToTry (pinnedBaseUrl s) = base # rest"
    using getBasesToTry_not_Nil[of "pinnedBaseUrl s"] by (cases "getBasesToTry (pinnedBaseUrl s)") auto
  then have "fetchViaAvailableBase rt net apiKey objectKey tok s = (Some (Inl URIError), s)"
    by (simp add: fetchViaAvailableBase_def None)
  with None show thesis by (rule throws)
next
  case (Some enc)
  let ?oc = "\<lambda>j. net (length (outbound s) + j)
                (recordsRequest rt apiKey enc tok (getBasesToTry (pinnedBaseUrl s) ! j))"
  show thesis
  proof (cases "\<exists>i<length (getBasesToTry (pinnedBaseUrl s)). \<not> fetchFails (?oc i)")
    case False
    then have "\<forall>j<length (getBasesToTry (pinnedBaseUrl s)). fetchFails (?oc j)" by blast
    then obtain attempts where "length attempts = length (getBasesToTry (pinnedBaseUrl s))"
      and "\<forall>j<length (getBasesToTry (pinnedBaseUrl s)).
             fetchRecord rt (getBasesToTry (pinnedBaseUrl s) ! j) (?oc j) = Some (attempts ! j)"
      by (rule fetch_records_exist)
    with Some show thesis by (rule exhausted)
  next
    case True
    then obtain i where i: "i < length (getBasesToTry (pinnedBaseUrl s))"
      and stop: "\<not> fetchFails (?oc i)" and "\<forall>j<i. \<not> \<not> fetchFails (?oc j)"
      by (rule first_index)
    then have before: "\<forall>j<i. fetchFails (?oc j)" by blast
    show thesis
    proof (cases "?oc i" rule: fetch_outcome_cases)
      case won
      then obtain chunks where "?oc i = Responds 200 chunks"
        unfolding fetchSucceeds_iff by blast
      with Some i before show thesis by (intro success)
    next
      case lost
      with stop show thesis by simp
    next
      case (cut st message)
      with Some i before show thesis by (intro aborted)
    qed
  qed
qed

lemma postViaAvailableBase_cases:
  obtains
    (exhausted) "\<forall>j<length (getBasesToTry (pinnedBaseUrl s)). \<not> postSucceeds
             (net (length (outbound s) + j)
                (postRequest rt (getBasesToTry (pinnedBaseUrl s) ! j) apiKey payload))"
  | (success) i st chunks where "i < length (getBasesToTry (pinnedBaseUrl s))"
      and "\<forall>j<i. \<not> postSucceeds
             (net (length (outbound s) + j)
                (postRequest rt (getBasesToTry (pinnedBaseUrl s) ! j) apiKey payload))"
      and "net (length (outbound s) + i)
             (postRequest rt (getBasesToTry (pinnedBaseUrl s) ! i) apiKey payload)
             = Responds st chunks"
      and "ok st"
proof -
  let ?oc = "\<lambda>j. net (length (outbound s) + j)
                (postRequest rt (getBasesToTry (pinnedBaseUrl s) ! j) apiKey payload)"
  show thesis
  proof (cases "\<exists>i<length (getBasesToTry (pinnedBaseUrl s)). postSucceeds (?oc i)")
    case False
    then have "\<forall>j<length (getBasesToTry (pinnedBaseUrl s)). \<not> postSucceeds (?oc j)" by blast
    then show thesis by (rule exhausted)
  next
    case True
    then obtain i where i: "i < length (getBasesToTry (pinnedBaseUrl s))"
      and win: "postSucceeds (?oc i)" and before: "\<forall>j<i. \<not> postSucceeds (?oc j)"
      by (rule first_index)
    from win obtain st chunks where "?oc i = Responds st chunks" and "ok st"
      unfolding postSucceeds_iff by blast
    with i before show thesis by (intro success)
  qed
qed

lemma last_of_sent:
  assumes "i < length bases"
  shows "last (sent @ map f (take (Suc i) bases)) = f (bases ! i)"
    and "length (sent @ map f (take (Suc i) bases)) = length sent + Suc i"
  using assms by (simp_all add: take_Suc_conv_app_nth)

lemma apiRecords_frame:
  assumes "apiRecords rt net req s = (answer, s')"
  shows "(answer = None \<and> pinnedBaseUrl s' = pinnedBaseUrl s) \<or>
         (\<exists>r. answer = Some r \<and> (pin_kept s r s' \<or> pin_written net s r s'))"
proof (cases "readJsonBody rt req")
  case (Inl err)
  with assms have "answer = Some (internalServerError rt)" "s' = s"
    by (simp_all add: apiRecords_def)
  then show ?thesis
    by (simp add: pin_kept_def internalServerError_def writeJson_def ok_def)
next
  case (Inr parsed)
  show ?thesis
  proof (cases "truthy (property parsed ''apiKey'') \<and> truthy (property parsed ''objectKey'')")
    case False
    then have "apiRecords rt net req s =
           (Some (writeJson 400 (errorBody rt ''apiKey and objectKey are required'')), s)"
      by (intro apiRecords_invalid[OF Inr]) simp
    with assms show ?thesis
      by (auto simp: pin_kept_def writeJson_def ok_def)
  next
    case True
    note valid = apiRecords_valid[OF Inr conjunct1[OF True] conjunct2[OF True], of net s]
    let ?apiKey = "property parsed ''apiKey''"
    let ?objectKey = "property parsed ''objectKey''"
    let ?tok = "orDefault (property parsed ''continuationToken'') (JStr [])"
    show ?thesis
    proof (cases rule: fetchViaAvailableBase_cases[of rt ?objectKey net ?apiKey ?tok s])
      case throws
      with valid assms show ?thesis
        by (auto simp: pin_kept_def internalServerError_def writeJson_def ok_def)
    next
      case (exhausted enc attempts)
      from valid assms show ?thesis
        unfolding fetchViaAvailableBase_exhausted[OF exhausted]
        by (auto simp: pin_kept_def writeJson_def ok_def)
    next
      case (aborted enc i st message)
      from valid assms show ?thesis
        unfolding fetchViaAvailableBase_first_aborted[OF aborted]
        by auto
    next
      case (success enc i chunks)
      from valid assms have r: "answer = Some (writeJson 200 (str_or (Buffer_toString rt chunks) ''{}''))"
        and s': "s' = s\<lparr>outbound := outbound s @
               map (recordsRequest rt ?apiKey enc ?tok) (take (Suc i) (getBasesToTry (pinnedBaseUrl s))),
            pinnedBaseUrl := Some (getBasesToTry (pinnedBaseUrl s) ! i)\<rparr>"
        unfolding fetchViaAvailableBase_first_success[OF success] by simp_all
      have "pin_written net s (writeJson 200 (str_or (Buffer_toString rt chunks) ''{}'')) s'"
        unfolding pin_written_def
      proof (rule exI[of _ i], intro conjI)
        show "i < length (getBasesToTry (pinnedBaseUrl s))" by (fact success(2))
        show "pinnedBaseUrl s' = Some (getBasesToTry (pinnedBaseUrl s) ! i)" by (simp add: s')
        show "length (outbound s') = length (outbound s) + Suc i"
          by (simp add: s' last_of_sent(2)[OF success(2)] del: length_append length_map)
        show "\<exists>st b. net (length (outbound s) + i) (last (outbound s')) = Responds st b \<and>
                 ok st \<and> code (writeJson 200 (str_or (Buffer_toString rt chunks) ''{}'')) = st"
          by (rule exI[of _ 200], rule exI[of _ chunks])
             (simp add: s' last_of_sent(1)[OF success(2)] success(4) ok_def writeJson_def
                del: last_appendR)
      qed
      with r show ?thesis by blast
    qed
  qed
qed

lemma apiContactList_frame:
  assumes "apiContactList rt net req s = (answer, s')"
  shows "\<exists>r. answer = Some r \<and> (pin_kept s r s' \<or> pin_written net s r s')"
proof (cases "readJsonBody rt req")
  case (Inl err)
  with assms have "answer = Some (internalServerError rt)" "s' = s"
    by (simp_all add: apiContactList_def)
  then show ?thesis
    by (simp add: pin_kept_def internalServerError_def writeJson_def ok_def)
next
  case (Inr parsed)
  show ?thesis
  proof (cases "truthy (property parsed ''apiKey'') \<and> truthy (property parsed ''groupListName'')
                  \<and> isArray (property parsed ''userProfileIds'')")
    case False
    then have "apiContactList rt net req s =
           (Some (writeJson 400 (errorBody rt ''apiKey, groupListName, and userProfileIds are required'')), s)"
      by (intro apiContactList_invalid[OF Inr]) simp
    with assms show ?thesis
      by (auto simp: pin_kept_def writeJson_def ok_def)
  next
    case True
    then have t: "truthy (property parsed ''apiKey'')" "truthy (property parsed ''groupListName'')"
      "isArray (property parsed ''userProfileIds'')" by simp_all
    note valid = apiContactList_valid[OF Inr t, of net s]
    let ?apiKey = "property parsed ''apiKey''"
    let ?payload = "JObj [(''groupListName'', property parsed ''groupListName''),
                          (''userProfileIds'', property parsed ''userProfileIds'')]"
    show ?thesis
    proof (cases rule: postViaAvailableBase_cases[of s net rt ?apiKey ?payload])
      case exhausted
      from valid assms show ?thesis
        unfolding postViaAvailableBase_exhausted[OF exhausted]
        by (auto simp: pin_kept_def writeJson_def ok_def)
    next
      case (success i st chunks)
      from valid assms have r: "answer = Some (writeJson st (str_or (Response_text rt chunks) ''{}''))"
        and s': "s' = s\<lparr>outbound := outbound s @
               map (\<lambda>base. postRequest rt base ?apiKey ?payload)
                 (take (Suc i) (getBasesToTry (pinnedBaseUrl s))),
            pinnedBaseUrl := Some (getBasesToTry (pinnedBaseUrl s) ! i)\<rparr>"
        unfolding postViaAvailableBase_first_success[OF success] by simp_all
      have "pin_written net s (writeJson st (str_or (Response_text rt chunks) ''{}'')) s'"
        unfolding pin_written_def
      proof (rule exI[of _ i], intro conjI)
        show "i < length (getBasesToTry (pinnedBaseUrl s))" by (fact success(1))
        show "pinnedBaseUrl s' = Some (getBasesToTry (pinnedBaseUrl s) ! i)" by (simp add: s')
        show "length (outbound s') = length (outbound s) + Suc i"
          by (simp add: s' last_of_sent(2)[OF success(1)] del: length_append length_map)
        show "\<exists>st' b. net (length (outbound s) + i) (last (outbound s')) = Responds st' b \<and>
                 ok st' \<and> code (writeJson st (str_or (Response_text rt chunks) ''{}'')) = st'"
          by (rule exI[of _ st], rule exI[of _ chunks])
             (simp add: s' last_of_sent(1)[OF success(1)] success(3,4) writeJson_def
                del: last_appendR)
      qed
      with r show ?thesis by blast
    qed
  qed
qed

lemma handler_frame:
  assumes "handler rt net req s = Some (answer, s')"
  shows "pinnedBaseUrl s' = pinnedBaseUrl s \<or> (\<exists>r. answer = Some r \<and> pin_written net s r s')"
    and "answer = None \<or> (\<exists>r. answer = Some r \<and> \<not> ok (code r))
           \<Longrightarrow> pinnedBaseUrl s' = pinnedBaseUrl s"
proof -
  have "s' = s \<or> (answer = None \<and> pinnedBaseUrl s' = pinnedBaseUrl s) \<or>
        (\<exists>r. answer = Some r \<and> (pin_kept s r s' \<or> pin_written net s r s'))"
    using assms apiRecords_frame[of rt net req s answer s']
      apiContactList_frame[of rt net req s answer s']
    by (auto simp: handler_def split: if_splits)
  then show first: "pinnedBaseUrl s' = pinnedBaseUrl s \<or>
      (\<exists>r. answer = Some r \<and> pin_written net s r s')"
    by (auto simp: pin_kept_def)
  then show "answer = None \<or> (\<exists>r. answer = Some r \<and> \<not> ok (code r))
           \<Longrightarrow> pinnedBaseUrl s' = pinnedBaseUrl s"
    by (auto simp: pin_written_def)
qed

lemma initial_state_valid: "pinned_valid initial_state"
  by (simp add: pinned_valid_def initial_state_def)

lemma handler_preserves_pinned_valid:
  assumes "handler rt net req s = Some (answer, s')" and "pinned_valid s"
  shows "pinned_valid s'"
proof -
  from handler_frame(1)[OF assms(1)] show ?thesis
  proof
    assume "pinnedBaseUrl s' = pinnedBaseUrl s"
    with assms(2) show ?thesis by (simp add: pinned_valid_def)
  next
    assume "\<exists>r. answer = Some r \<and> pin_written net s r s'"
    then obtain i where i: "i < length (getBasesToTry (pinnedBaseUrl s))"
      and pin: "pinnedBaseUrl s' = Some (getBasesToTry (pinnedBaseUrl s) ! i)"
      unfolding pin_written_def by blast
    from i have "getBasesToTry (pinnedBaseUrl s) ! i \<in> set (getBasesToTry (pinnedBaseUrl s))"
      by simp
    with getBasesToTry_subset[of "pinnedBaseUrl s"] assms(2)
    have "getBasesToTry (pinnedBaseUrl s) ! i \<in> set BASE_URLS"
      by (auto simp: pinned_valid_def split: option.splits)
    with pin show ?thesis by (simp add: pinned_valid_def)
  qed
qed

text \<open>The loops read the outbound log of the state and nothing else of it.\<close>

lemma fetchLoop_reads_no_pin:
  assumes "outbound s1 = outbound s2"
  shows "fst (fetchLoop rt net apiKey objectKey tok bases errors s1) =
           fst (fetchLoop rt net apiKey objectKey tok bases errors s2) \<and>
         outbound (snd (fetchLoop rt net apiKey objectKey tok bases errors s1)) =
           outbound (snd (fetchLoop rt net apiKey objectKey tok bases errors s2))"
  using assms
proof (induction bases arbitrary: errors s1 s2)
  case Nil
  then show ?case by simp
next
  case (Cons base rest)
  show ?case
  proof (cases "encodeURIComponent rt objectKey")
    case None
    with Cons.prems show ?thesis by simp
  next
    case (Some enc)
    let ?req = "recordsRequest rt apiKey enc tok base"
    let ?s1 = "s1\<lparr>outbound := outbound s1 @ [?req]\<rparr>"
    let ?s2 = "s2\<lparr>outbound := outbound s2 @ [?req]\<rparr>"
    have same: "outbound ?s1 = outbound ?s2" using Cons.prems by simp
    have oc: "net (length (outbound s1)) ?req = net (length (outbound s2)) ?req"
      using Cons.prems by simp
    show ?thesis
    proof (cases "net (length (outbound s2)) ?req" rule: fetch_outcome_cases)
      case won
      then obtain b where b: "net (length (outbound s2)) ?req = Responds 200 b"
        unfolding fetchSucceeds_iff by blast
      note w = fetchLoop_step_success[where net = net and base = base and chunks = b, OF Some]
      show ?thesis
        unfolding w[of s2, OF b] w[of s1, OF b[folded oc]]
        using Cons.prems by simp
    next
      case lost
      then obtain a where a: "fetchRecord rt base (net (length (outbound s2)) ?req) = Some a"
        unfolding fetchFails_iff_record[of _ rt base] by blast
      note l = fetchLoop_step_fail[where net = net and base = base and a = a, OF Some]
      show ?thesis
        unfolding l[of s2, OF a] l[of s1, OF a[folded oc]]
        by (rule Cons.IH[OF same])
    next
      case (cut st message)
      note c = fetchLoop_step_aborted[where net = net and base = base and st = st
          and message = message, OF Some]
      show ?thesis
        unfolding c[of s2, OF cut] c[of s1, OF cut[folded oc]]
        using Cons.prems by simp
    qed
  qed
qed

lemma postLoop_reads_no_pin:
  assumes "outbound s1 = outbound s2"
  shows "fst (postLoop rt net apiKey payload bases errors s1) =
           fst (postLoop rt net apiKey payload bases errors s2) \<and>
         outbound (snd (postLoop rt net apiKey payload bases errors s1)) =
           outbound (snd (postLoop rt net apiKey payload bases errors s2))"
  using assms
proof (induction bases arbitrary: errors s1 s2)
  case Nil
  then show ?case by simp
next
  case (Cons base rest)
  let ?req = "postRequest rt base apiKey payload"
  let ?s1 = "s1\<lparr>outbound := outbound s1 @ [?req]\<rparr>"
  let ?s2 = "s2\<lparr>outbound := outbound s2 @ [?req]\<rparr>"
  have same: "outbound ?s1 = outbound ?s2" using Cons.prems by simp
  have oc: "net (length (outbound s1)) ?req = net (length (outbound s2)) ?req"
    using Cons.prems by simp
  show ?case
  proof (cases "postSucceeds (net (length (outbound s2)) ?req)")
    case True
    then obtain st b where b: "net (length (outbound s2)) ?req = Responds st b" and st: "ok st"
      unfolding postSucceeds_iff by blast
    note w = postLoop_step_success[where net = net and base = base and chunks = b and st = st]
    show ?thesis
      unfolding w[of s2, OF b st] w[of s1, OF b[folded oc] st]
      using Cons.prems by simp
  next
    case False
    note l = postLoop_step_fail[where net = net and base = base]
    show ?thesis
      unfolding l[of s2, OF False] l[of s1, OF False[folded oc]] oc
      by (rule Cons.IH[OF same])
  qed
qed

lemma apiRecords_reads_ordering:
  assumes "getBasesToTry p = getBasesToTry q"
  shows "fst (apiRecords rt net req (s\<lparr>pinnedBaseUrl := p\<rparr>)) =
           fst (apiRecords rt net req (s\<lparr>pinnedBaseUrl := q\<rparr>)) \<and>
         outbound (snd (apiRecords rt net req (s\<lparr>pinnedBaseUrl := p\<rparr>))) =
           outbound (snd (apiRecords rt net req (s\<lparr>pinnedBaseUrl := q\<rparr>)))"
proof -
  have loop: "fst (fetchViaAvailableBase rt net a k t (s\<lparr>pinnedBaseUrl := p\<rparr>)) =
           fst (fetchViaAvailableBase rt net a k t (s\<lparr>pinnedBaseUrl := q\<rparr>)) \<and>
         outbound (snd (fetchViaAvailableBase rt net a k t (s\<lparr>pinnedBaseUrl := p\<rparr>))) =
           outbound (snd (fetchViaAvailableBase rt net a k t (s\<lparr>pinnedBaseUrl := q\<rparr>)))" for a k t
    unfolding fetchViaAvailableBase_def
    using fetchLoop_reads_no_pin[of "s\<lparr>pinnedBaseUrl := p\<rparr>" "s\<lparr>pinnedBaseUrl := q\<rparr>"
            rt net a k t "getBasesToTry q" "[]"] assms
    by simp
  show ?thesis
  proof (cases "readJsonBody rt req")
    case (Inl err)
    then show ?thesis by (simp add: apiRecords_def)
  next
    case (Inr parsed)
    show ?thesis
    proof (cases "truthy (property parsed ''apiKey'') \<and> truthy (property parsed ''objectKey'')")
      case False
      then have "\<not> truthy (property parsed ''apiKey'') \<or> \<not> truthy (property parsed ''objectKey'')"
        by simp
      then show ?thesis by (simp add: apiRecords_invalid[OF Inr])
    next
      case True
      let ?call = "fetchViaAvailableBase rt net (property parsed ''apiKey'') (property parsed ''objectKey'')
                     (orDefault (property parsed ''continuationToken'') (JStr []))"
      obtain r1 s1 where e1: "?call (s\<lparr>pinnedBaseUrl := p\<rparr>) = (r1, s1)"
        by (cases "?call (s\<lparr>pinnedBaseUrl := p\<rparr>)")
      obtain r2 s2 where e2: "?call (s\<lparr>pinnedBaseUrl := q\<rparr>) = (r2, s2)"
        by (cases "?call (s\<lparr>pinnedBaseUrl := q\<rparr>)")
      from loop[of "property parsed ''apiKey''" "property parsed ''objectKey''"
                   "orDefault (property parsed ''continuationToken'') (JStr [])"] e1 e2
      have same: "r1 = r2" "outbound s1 = outbound s2" by simp_all
      show ?thesis
        unfolding apiRecords_valid[OF Inr conjunct1[OF True] conjunct2[OF True]] e1 e2
        using same by (auto split: option.splits sum.splits)
    qed
  qed
qed

lemma apiContactList_reads_ordering:
  assumes "getBasesToTry p = getBasesToTry q"
  shows "fst (apiContactList rt net req (s\<lparr>pinnedBaseUrl := p\<rparr>)) =
           fst (apiContactList rt net req (s\<lparr>pinnedBaseUrl := q\<rparr>)) \<and>
         outbound (snd (apiContactList rt net req (s\<lparr>pinnedBaseUrl := p\<rparr>))) =
           outbound (snd (apiContactList rt net req (s\<lparr>pinnedBaseUrl := q\<rparr>)))"
proof -
  have loop: "fst (postViaAvailableBase rt net a pl (s\<lparr>pinnedBaseUrl := p\<rparr>)) =
           fst (postViaAvailableBase rt net a pl (s\<lparr>pinnedBaseUrl := q\<rparr>)) \<and>
         outbound (snd (postViaAvailableBase rt net a pl (s\<lparr>pinnedBaseUrl := p\<rparr>))) =
           outbound (snd (postViaAvailableBase rt net a pl (s\<lparr>pinnedBaseUrl := q\<rparr>)))" for a pl
    unfolding postViaAvailableBase_def
    using postLoop_reads_no_pin[of "s\<lparr>pinnedBaseUrl := p\<rparr>" "s\<lparr>pinnedBaseUrl := q\<rparr>"
            rt net a pl "getBasesToTry q" "[]"] assms
    by simp
  show ?thesis
  proof (cases "readJsonBody rt req")
    case (Inl err)
    then show ?thesis by (simp add: apiContactList_def)
  next
    case (Inr parsed)
    show ?thesis
    proof (cases "truthy (property parsed ''apiKey'') \<and> truthy (property parsed ''groupListName'')
                    \<and> isArray (property parsed ''userProfileIds'')")
      case False
      then have "\<not> truthy (property parsed ''apiKey'') \<or> \<not> truthy (property parsed ''groupListName'')
                   \<or> \<not> isArray (property parsed ''userProfileIds'')"
        by simp
      then show ?thesis by (simp add: apiContactList_invalid[OF Inr])
    next
      case True
      then have t: "truthy (property parsed ''apiKey'')" "truthy (property parsed ''groupListName'')"
        "isArray (property parsed ''userProfileIds'')" by simp_all
      let ?call = "postViaAvailableBase rt net (property parsed ''apiKey'')
                     (JObj [(''groupListName'', property parsed ''groupListName''),
                            (''userProfileIds'', property parsed ''userProfileIds'')])"
      obtain r1 s1 where e1: "?call (s\<lparr>pinnedBaseUrl := p\<rparr>) = (r1, s1)"
        by (cases "?call (s\<lparr>pinnedBaseUrl := p\<rparr>)")
      obtain r2 s2 where e2: "?call (s\<lparr>pinnedBaseUrl := q\<rparr>) = (r2, s2)"
        by (cases "?call (s\<lparr>pinnedBaseUrl := q\<rparr>)")
      from loop[of "property parsed ''apiKey''"
                   "JObj [(''groupListName'', property parsed ''groupListName''),
                          (''userProfileIds'', property parsed ''userProfileIds'')]"] e1 e2
      have same: "r1 = r2" "outbound s1 = outbound s2" by simp_all
      show ?thesis
        unfolding apiContactList_valid[OF Inr t] e1 e2
        using same by simp
    qed
  qed
qed

lemma handler_reads_ordering:
  assumes "getBasesToTry p = getBasesToTry q"
  shows "map_option fst (handler rt net req (s\<lparr>pinnedBaseUrl := p\<rparr>)) =
           map_option fst (handler rt net req (s\<lparr>pinnedBaseUrl := q\<rparr>)) \<and>
         map_option (outbound \<circ> snd) (handler rt net req (s\<lparr>pinnedBaseUrl := p\<rparr>)) =
           map_option (outbound \<circ> snd) (handler rt net req (s\<lparr>pinnedBaseUrl := q\<rparr>))"
  using apiRecords_reads_ordering[OF assms, of rt net req s]
    apiContactList_reads_ordering[OF assms, of rt net req s]
  by (simp add: handler_def)


text \<open>
  C9.  The pinned host is unset in the initial state.  A request either leaves it as it
  was, or sets it to the host of the ordering whose call was answered with a success
  status (the status then sent to the client); it is never set back to unset.  It is
  left as it was whenever the answer is not a success status or no answer is sent at
  all, so when every host fails (502), when validation fails (400, with the whole state
  unchanged) and on an internal error (500).  A call of the record-fetch proxy in which
  no host succeeds leaves it as it was, and returns 502 when every attempt settles.  The
  variable is read only to compute the ordering: two values that give the same ordering
  give the same answer and the same outbound calls.
\<close>

theorem pinned_host_lifecycle:
  assumes "handler rt net req s = Some (answer, s')"
  shows
    "pinnedBaseUrl initial_state = None \<and>
     (pinnedBaseUrl s' = pinnedBaseUrl s \<or> (\<exists>r. answer = Some r \<and> pin_written net s r s')) \<and>
     (answer = None \<or> (\<exists>r. answer = Some r \<and> \<not> ok (code r))
        \<longrightarrow> pinnedBaseUrl s' = pinnedBaseUrl s) \<and>
     (pinnedBaseUrl s \<noteq> None \<longrightarrow> pinnedBaseUrl s' \<noteq> None) \<and>
     (readJsonBody rt req = Inr parsed \<and>
      (url req = ''/api/records'' \<and> http_method req = ''POST'' \<and>
         (\<not> truthy (property parsed ''apiKey'') \<or> \<not> truthy (property parsed ''objectKey'')) \<or>
       url req = ''/api/contact/list'' \<and> http_method req = ''POST'' \<and>
         (\<not> truthy (property parsed ''apiKey'') \<or> \<not> truthy (property parsed ''groupListName'') \<or>
          \<not> isArray (property parsed ''userProfileIds'')))
      \<longrightarrow> (\<exists>r. answer = Some r \<and> code r = 400) \<and> s' = s) \<and>
     (encodeURIComponent rt objectKey = Some enc \<and>
      (\<forall>j<length (getBasesToTry (pinnedBaseUrl s)). \<not> fetchSucceeds
           (net (length (outbound s) + j)
              (recordsRequest rt apiKey enc tok (getBasesToTry (pinnedBaseUrl s) ! j))))
      \<longrightarrow> pinnedBaseUrl (snd (fetchViaAvailableBase rt net apiKey objectKey tok s)) = pinnedBaseUrl s) \<and>
     (encodeURIComponent rt objectKey = Some enc \<and>
      (\<forall>j<length (getBasesToTry (pinnedBaseUrl s)). fetchFails
           (net (length (outbound s) + j)
              (recordsRequest rt apiKey enc tok (getBasesToTry (pinnedBaseUrl s) ! j))))
      \<longrightarrow> (\<exists>text. fst (fetchViaAvailableBase rt net apiKey objectKey tok s) =
                    Some (Inr \<lparr>status = 502, body = text\<rparr>))) \<and>
     ((\<forall>j<length (getBasesToTry (pinnedBaseUrl s)). \<not> postSucceeds
           (net (length (outbound s) + j)
              (postRequest rt (getBasesToTry (pinnedBaseUrl s) ! j) apiKey' payload)))
      \<longrightarrow> status (fst (postViaAvailableBase rt net apiKey' payload s)) = 502 \<and>
          pinnedBaseUrl (snd (postViaAvailableBase rt net apiKey' payload s)) = pinnedBaseUrl s) \<and>
     (\<forall>p q. getBasesToTry p = getBasesToTry q \<longrightarrow>
        map_option fst (handler rt net req (s\<lparr>pinnedBaseUrl := p\<rparr>)) =
          map_option fst (handler rt net req (s\<lparr>pinnedBaseUrl := q\<rparr>)) \<and>
        map_option (outbound \<circ> snd) (handler rt net req (s\<lparr>pinnedBaseUrl := p\<rparr>)) =
          map_option (outbound \<circ> snd) (handler rt net req (s\<lparr>pinnedBaseUrl := q\<rparr>)))"
proof (intro conjI allI impI)
  show "pinnedBaseUrl initial_state = None"
    by (simp add: initial_state_def)
  show written: "pinnedBaseUrl s' = pinnedBaseUrl s \<or>
      (\<exists>r. answer = Some r \<and> pin_written net s r s')"
    by (rule handler_frame(1)[OF assms])
  show "pinnedBaseUrl s' = pinnedBaseUrl s"
    if "answer = None \<or> (\<exists>r. answer = Some r \<and> \<not> ok (code r))"
    using that by (rule handler_frame(2)[OF assms])
  show "pinnedBaseUrl s' \<noteq> None" if "pinnedBaseUrl s \<noteq> None"
    using written that by (auto simp: pin_written_def)
next
  assume h: "readJsonBody rt req = Inr parsed \<and>
      (url req = ''/api/records'' \<and> http_method req = ''POST'' \<and>
         (\<not> truthy (property parsed ''apiKey'') \<or> \<not> truthy (property parsed ''objectKey'')) \<or>
       url req = ''/api/contact/list'' \<and> http_method req = ''POST'' \<and>
         (\<not> truthy (property parsed ''apiKey'') \<or> \<not> truthy (property parsed ''groupListName'') \<or>
          \<not> isArray (property parsed ''userProfileIds'')))"
  then have parsed: "readJsonBody rt req = Inr parsed" by simp
  from h have "(\<exists>r. answer = Some r \<and> code r = 400) \<and> s' = s"
  proof (elim conjE disjE)
    assume "url req = ''/api/records''" "http_method req = ''POST''"
      and "\<not> truthy (property parsed ''apiKey'')"
    with assms apiRecords_invalid[OF parsed, of net s] show ?thesis
      by (auto simp: handler_records writeJson_def)
  next
    assume "url req = ''/api/records''" "http_method req = ''POST''"
      and "\<not> truthy (property parsed ''objectKey'')"
    with assms apiRecords_invalid[OF parsed, of net s] show ?thesis
      by (auto simp: handler_records writeJson_def)
  next
    assume "url req = ''/api/contact/list''" "http_method req = ''POST''"
      and "\<not> truthy (property parsed ''apiKey'')"
    with assms apiContactList_invalid[OF parsed, of net s] show ?thesis
      by (auto simp: handler_contact writeJson_def)
  next
    assume "url req = ''/api/contact/list''" "http_method req = ''POST''"
      and "\<not> truthy (property parsed ''groupListName'')"
    with assms apiContactList_invalid[OF parsed, of net s] show ?thesis
      by (auto simp: handler_contact writeJson_def)
  next
    assume "url req = ''/api/contact/list''" "http_method req = ''POST''"
      and "\<not> isArray (property parsed ''userProfileIds'')"
    with assms apiContactList_invalid[OF parsed, of net s] show ?thesis
      by (auto simp: handler_contact writeJson_def)
  qed
  then show "\<exists>r. answer = Some r \<and> code r = 400" and "s' = s" by simp_all
next
  assume h: "encodeURIComponent rt objectKey = Some enc \<and>
      (\<forall>j<length (getBasesToTry (pinnedBaseUrl s)). \<not> fetchSucceeds
           (net (length (outbound s) + j)
              (recordsRequest rt apiKey enc tok (getBasesToTry (pinnedBaseUrl s) ! j))))"
  show "pinnedBaseUrl (snd (fetchViaAvailableBase rt net apiKey objectKey tok s)) = pinnedBaseUrl s"
  proof (cases rule: fetchViaAvailableBase_cases[of rt objectKey net apiKey tok s])
    case throws
    then show ?thesis by simp
  next
    case (exhausted enc' attempts)
    show ?thesis unfolding fetchViaAvailableBase_exhausted[OF exhausted] by simp
  next
    case (aborted enc' i st message)
    show ?thesis unfolding fetchViaAvailableBase_first_aborted[OF aborted] by simp
  next
    case (success enc' i chunks)
    from success(1) h have "enc' = enc" by simp
    with success(4) have "fetchSucceeds
           (net (length (outbound s) + i)
              (recordsRequest rt apiKey enc tok (getBasesToTry (pinnedBaseUrl s) ! i)))"
      by simp
    with h success(2) show ?thesis by blast
  qed
next
  assume h: "encodeURIComponent rt objectKey = Some enc \<and>
      (\<forall>j<length (getBasesToTry (pinnedBaseUrl s)). fetchFails
           (net (length (outbound s) + j)
              (recordsRequest rt apiKey enc tok (getBasesToTry (pinnedBaseUrl s) ! j))))"
  from conjunct2[OF h] obtain attempts
    where "length attempts = length (getBasesToTry (pinnedBaseUrl s))"
      and "\<forall>j<length (getBasesToTry (pinnedBaseUrl s)).
             fetchRecord rt (getBasesToTry (pinnedBaseUrl s) ! j)
               (net (length (outbound s) + j)
                  (recordsRequest rt apiKey enc tok (getBasesToTry (pinnedBaseUrl s) ! j)))
             = Some (attempts ! j)"
    by (rule fetch_records_exist)
  note exh = fetchViaAvailableBase_exhausted[OF conjunct1[OF h] this]
  show "\<exists>text. fst (fetchViaAvailableBase rt net apiKey objectKey tok s) =
                    Some (Inr \<lparr>status = 502, body = text\<rparr>)"
    unfolding exh by simp
next
  assume h: "\<forall>j<length (getBasesToTry (pinnedBaseUrl s)). \<not> postSucceeds
           (net (length (outbound s) + j)
              (postRequest rt (getBasesToTry (pinnedBaseUrl s) ! j) apiKey' payload))"
  note exh = postViaAvailableBase_exhausted[OF h]
  show "status (fst (postViaAvailableBase rt net apiKey' payload s)) = 502"
    unfolding exh by simp
  show "pinnedBaseUrl (snd (postViaAvailableBase rt net apiKey' payload s)) = pinnedBaseUrl s"
    unfolding exh by simp
next
  fix p q assume same: "getBasesToTry p = getBasesToTry q"
  note ro = handler_reads_ordering[OF same, of rt net req s]
  show "map_option fst (handler rt net req (s\<lparr>pinnedBaseUrl := p\<rparr>)) =
          map_option fst (handler rt net req (s\<lparr>pinnedBaseUrl := q\<rparr>))"
    by (rule conjunct1[OF ro])
  show "map_option (outbound \<circ> snd) (handler rt net req (s\<lparr>pinnedBaseUrl := p\<rparr>)) =
          map_option (outbound \<circ> snd) (handler rt net req (s\<lparr>pinnedBaseUrl := q\<rparr>))"
    by (rule conjunct2[OF ro])
qed

theorem pinned_host_lifecycle_witness:
  "map_option (pinnedBaseUrl \<circ> snd)
     (handler example_runtime first_call_rejected (records_post records_doc) initial_state)
     = Some (Some ''https://sleekflow-core-app-eus-production.azurewebsites.net'') \<and>
   map_option (pinnedBaseUrl \<circ> snd)
     (handler example_runtime all_down (contact_post contact_doc) pinned_to_weu)
     = Some (Some ''https://sleekflow-core-app-weu-production.azurewebsites.net'') \<and>
   pinnedBaseUrl (snd (fetchViaAvailableBase example_runtime all_down
       (JStr ''k1'') (JStr ''orders'') (JStr []) pinned_to_weu))
     = Some ''https://sleekflow-core-app-weu-production.azurewebsites.net'' \<and>
   map_option (map_sum id status) (fst (fetchViaAvailableBase example_runtime all_down
       (JStr ''k1'') (JStr ''orders'') (JStr []) pinned_to_weu))
     = Some (Inr 502) \<and>
   status (fst (postViaAvailableBase example_runtime all_down (JStr ''k1'') (JObj []) pinned_to_weu))
     = 502 \<and>
   map_option (pinnedBaseUrl \<circ> snd)
     (handler example_runtime all_down (records_post records_doc_without_apiKey) pinned_to_weu)
     = Some (Some ''https://sleekflow-core-app-weu-production.azurewebsites.net'') \<and>
   map_option fst (handler example_runtime all_down (contact_post contact_doc)
       (pinned_to_weu\<lparr>pinnedBaseUrl := None\<rparr>))
     = map_option fst (handler example_runtime all_down (contact_post contact_doc)
       (pinned_to_weu\<lparr>pinnedBaseUrl := Some []\<rparr>))"
proof -
  have enc: "encodeURIComponent example_runtime (JStr ''orders'') = Some ''orders''"
    by (simp add: example_runtime_def)
  have weu: "pinnedBaseUrl pinned_to_weu = Some ''https://sleekflow-core-app-weu-production.azurewebsites.net''"
    by (simp add: pinned_to_weu_def)
  \<comment> \<open>a call that succeeds at the second host\<close>
  have i: "1 < length (getBasesToTry (pinnedBaseUrl initial_state))"
    by (simp add: initial_state_def getBasesToTry_def BASE_URLS_def)
  have eus: "getBasesToTry (pinnedBaseUrl initial_state) ! 1
               = ''https://sleekflow-core-app-eus-production.azurewebsites.net''"
    by (simp add: initial_state_def getBasesToTry_def BASE_URLS_def)
  have "apiRecords example_runtime first_call_rejected (records_post records_doc) initial_state =
          (Some (writeJson 200 (str_or (Buffer_toString example_runtime ''[1,2]'') ''{}'')),
           initial_state\<lparr>outbound := outbound initial_state @
                 map (recordsRequest example_runtime
                        (property (JObj [(''apiKey'', JStr ''k1''), (''objectKey'', JStr ''orders'')]) ''apiKey'')
                        ''orders''
                        (orDefault (property (JObj [(''apiKey'', JStr ''k1''), (''objectKey'', JStr ''orders'')])
                           ''continuationToken'') (JStr [])))
                   (take (Suc 1) (getBasesToTry (pinnedBaseUrl initial_state))),
              pinnedBaseUrl := Some (getBasesToTry (pinnedBaseUrl initial_state) ! 1)\<rparr>)"
    by (rule apiRecords_success[OF example_parses(1) _ _ _ i])
       (simp_all add: enc first_call_rejected_def initial_state_def)
  then have h1: "handler example_runtime first_call_rejected (records_post records_doc) initial_state =
      Some (Some (writeJson 200 (str_or (Buffer_toString example_runtime ''[1,2]'') ''{}'')),
           initial_state\<lparr>outbound := outbound initial_state @
                 map (recordsRequest example_runtime
                        (property (JObj [(''apiKey'', JStr ''k1''), (''objectKey'', JStr ''orders'')]) ''apiKey'')
                        ''orders''
                        (orDefault (property (JObj [(''apiKey'', JStr ''k1''), (''objectKey'', JStr ''orders'')])
                           ''continuationToken'') (JStr [])))
                   (take (Suc 1) (getBasesToTry (pinnedBaseUrl initial_state))),
              pinnedBaseUrl := Some (getBasesToTry (pinnedBaseUrl initial_state) ! 1)\<rparr>)"
    by (simp add: handler_def records_post_def)
  \<comment> \<open>a call in which every host fails\<close>
  have down: "\<forall>j<length (getBasesToTry (pinnedBaseUrl pinned_to_weu)). \<not> postSucceeds
           (all_down (length (outbound pinned_to_weu) + j)
              (postRequest example_runtime (getBasesToTry (pinnedBaseUrl pinned_to_weu) ! j) a pl))" for a pl
    by (simp add: all_down_def)
  have down': "\<forall>j<length (getBasesToTry (pinnedBaseUrl pinned_to_weu)). \<not> fetchSucceeds
           (all_down (length (outbound pinned_to_weu) + j)
              (recordsRequest example_runtime (JStr ''k1'') ''orders'' (JStr [])
                 (getBasesToTry (pinnedBaseUrl pinned_to_weu) ! j)))"
    by (simp add: all_down_def)
  have down'': "\<forall>j<length (getBasesToTry (pinnedBaseUrl pinned_to_weu)). fetchFails
           (all_down (length (outbound pinned_to_weu) + j)
              (recordsRequest example_runtime (JStr ''k1'') ''orders'' (JStr [])
                 (getBasesToTry (pinnedBaseUrl pinned_to_weu) ! j)))"
    by (simp add: all_down_def)
  obtain r2 s2 where h2: "handler example_runtime all_down (contact_post contact_doc) pinned_to_weu
      = Some (r2, s2)"
    by (cases "apiContactList example_runtime all_down (contact_post contact_doc) pinned_to_weu")
       (simp add: handler_def contact_post_def)
  have "apiContactList example_runtime all_down (contact_post contact_doc) pinned_to_weu
          = (r2, s2)"
    using h2 by (simp add: handler_def contact_post_def)
  then have code2: "\<exists>r. r2 = Some r \<and> \<not> ok (code r)"
    unfolding apiContactList_valid[OF example_parses(3), simplified] postViaAvailableBase_exhausted[OF down]
    by (auto simp: writeJson_def ok_def)
  \<comment> \<open>a request that fails validation\<close>
  obtain r3 s3 where h3: "handler example_runtime all_down (records_post records_doc_without_apiKey)
      pinned_to_weu = Some (r3, s3)"
    by (cases "apiRecords example_runtime all_down (records_post records_doc_without_apiKey) pinned_to_weu")
       (simp add: handler_def records_post_def)
  have same: "getBasesToTry None = getBasesToTry (Some [])"
    by (simp add: getBasesToTry_def)
  note written = pinned_host_lifecycle
      [OF h1, THEN conjunct2, THEN conjunct1]
  note kept = pinned_host_lifecycle
      [OF h2, THEN conjunct2, THEN conjunct2, THEN conjunct1]
  note unpinned = pinned_host_lifecycle
      [OF h2, where objectKey = "JStr ''orders''" and enc = "''orders''"
         and apiKey = "JStr ''k1''" and tok = "JStr []",
       THEN conjunct2, THEN conjunct2, THEN conjunct2, THEN conjunct2, THEN conjunct2,
       THEN conjunct1]
  note exhausted = pinned_host_lifecycle
      [OF h2, where objectKey = "JStr ''orders''" and enc = "''orders''"
         and apiKey = "JStr ''k1''" and tok = "JStr []",
       THEN conjunct2, THEN conjunct2, THEN conjunct2, THEN conjunct2, THEN conjunct2,
       THEN conjunct2, THEN conjunct1]
  note posted = pinned_host_lifecycle
      [OF h2, where apiKey' = "JStr ''k1''" and payload = "JObj []",
       THEN conjunct2, THEN conjunct2, THEN conjunct2, THEN conjunct2, THEN conjunct2,
       THEN conjunct2, THEN conjunct2, THEN conjunct1]
  note invalid = pinned_host_lifecycle
      [OF h3, where parsed = "JObj [(''objectKey'', JStr ''orders'')]",
       THEN conjunct2, THEN conjunct2, THEN conjunct2, THEN conjunct2, THEN conjunct1]
  note read_only = pinned_host_lifecycle
      [OF h2, THEN conjunct2, THEN conjunct2, THEN conjunct2, THEN conjunct2, THEN conjunct2,
       THEN conjunct2, THEN conjunct2, THEN conjunct2]
  have c1: "map_option (pinnedBaseUrl \<circ> snd)
     (handler example_runtime first_call_rejected (records_post records_doc) initial_state)
     = Some (Some ''https://sleekflow-core-app-eus-production.azurewebsites.net'')"
    using written eus by (simp add: h1)
  have c2: "map_option (pinnedBaseUrl \<circ> snd)
     (handler example_runtime all_down (contact_post contact_doc) pinned_to_weu)
     = Some (Some ''https://sleekflow-core-app-weu-production.azurewebsites.net'')"
    using kept code2 by (simp add: h2 weu)
  have c3: "pinnedBaseUrl (snd (fetchViaAvailableBase example_runtime all_down
       (JStr ''k1'') (JStr ''orders'') (JStr []) pinned_to_weu))
     = Some ''https://sleekflow-core-app-weu-production.azurewebsites.net''"
    using unpinned enc down' by (simp add: weu)
  have "\<exists>text. fst (fetchViaAvailableBase example_runtime all_down
       (JStr ''k1'') (JStr ''orders'') (JStr []) pinned_to_weu)
     = Some (Inr \<lparr>status = 502, body = text\<rparr>)"
    using exhausted enc down'' by blast
  then have c4: "map_option (map_sum id status) (fst (fetchViaAvailableBase example_runtime all_down
       (JStr ''k1'') (JStr ''orders'') (JStr []) pinned_to_weu))
     = Some (Inr 502)"
    by auto
  have c5: "status (fst (postViaAvailableBase example_runtime all_down (JStr ''k1'') (JObj [])
       pinned_to_weu)) = 502"
    using posted down[of "JStr ''k1''" "JObj []"] by blast
  have c6: "map_option (pinnedBaseUrl \<circ> snd)
     (handler example_runtime all_down (records_post records_doc_without_apiKey) pinned_to_weu)
     = Some (Some ''https://sleekflow-core-app-weu-production.azurewebsites.net'')"
    using invalid example_parses(2) h3 by (simp add: weu records_post_def)
  have c7: "map_option fst (handler example_runtime all_down (contact_post contact_doc)
       (pinned_to_weu\<lparr>pinnedBaseUrl := None\<rparr>))
     = map_option fst (handler example_runtime all_down (contact_post contact_doc)
       (pinned_to_weu\<lparr>pinnedBaseUrl := Some []\<rparr>))"
    using read_only same by blast
  from c1 c2 c3 c4 c5 c6 c7 show ?thesis by (intro conjI)
qed

end
